theory Spec2Isabelle
  imports Complex_Main "HOL-Library.Log_Nat"
begin

section \<open>Python values used by the inspection monitor\<close>

subsection \<open>Floats\<close>

text \<open>
  A Python float is an IEEE 754 binary64 number. The finite ones are written by their exact
  rational value; the negative zero and the two infinities are separate values. No
  operation of the monitor produces a NaN.
\<close>

datatype pyfloat = Fin rat | NegZero | PosInf | NegInf

datatype py_error = ZeroDivisionError | OverflowError

definition pow2 :: "int \<Rightarrow> rat" where
  "pow2 e = (if 0 \<le> e then 2 ^ nat e else 1 / 2 ^ nat (- e))"

text \<open>Rounding a rational to the nearest integer, ties to the even one.\<close>

definition round_half_even :: "rat \<Rightarrow> int" where
  "round_half_even q =
     (let f = \<lfloor>q\<rfloor>; r = q - of_int f
      in if r < 1 / 2 then f else if 1 / 2 < r then f + 1
         else if even f then f else f + 1)"

text \<open>The binary exponent \<open>\<lfloor>log\<^sub>2 q\<rfloor>\<close> of a positive rational.\<close>

definition ilog2 :: "rat \<Rightarrow> int" where
  "ilog2 q =
     (let (a, b) = quotient_of q; d = bitlen a - bitlen b
      in if pow2 d \<le> q then d else d - 1)"

text \<open>
  Rounding of a positive rational to binary64, to nearest, ties to even: 53 significant
  bits, exponent of the last bit not below \<open>-1074\<close> (the subnormal range), overflow to
  infinity from \<open>2\<^sup>1\<^sup>0\<^sup>2\<^sup>4\<close> on.
\<close>

definition fl_pos :: "rat \<Rightarrow> pyfloat" where
  "fl_pos q =
     (let e = max (ilog2 q - 52) (- 1074);
          m = round_half_even (q / pow2 e);
          v = of_int m * pow2 e
      in if pow2 1024 \<le> v then PosInf else Fin v)"

fun float_neg :: "pyfloat \<Rightarrow> pyfloat" where
  "float_neg (Fin q) = (if q = 0 then NegZero else Fin (- q))"
| "float_neg NegZero = Fin 0"
| "float_neg PosInf = NegInf"
| "float_neg NegInf = PosInf"

definition fl :: "rat \<Rightarrow> pyfloat" where
  "fl q = (if q = 0 then Fin 0 else if 0 < q then fl_pos q else float_neg (fl_pos (- q)))"

text \<open>\<open>x - y\<close> on two finite floats.\<close>

definition float_sub :: "rat \<Rightarrow> rat \<Rightarrow> pyfloat" where
  "float_sub x y = fl (x - y)"

text \<open>\<open>x > c\<close> and \<open>x >= c\<close> for a float \<open>x\<close> and a finite float constant \<open>c\<close>.\<close>

fun float_gt :: "pyfloat \<Rightarrow> rat \<Rightarrow> bool" where
  "float_gt (Fin q) c = (c < q)"
| "float_gt NegZero c = (c < 0)"
| "float_gt PosInf c = True"
| "float_gt NegInf c = False"

fun float_ge :: "pyfloat \<Rightarrow> rat \<Rightarrow> bool" where
  "float_ge (Fin q) c = (c \<le> q)"
| "float_ge NegZero c = (c \<le> 0)"
| "float_ge PosInf c = True"
| "float_ge NegInf c = False"

text \<open>
  \<open>a / b\<close> on two Python ints: the correctly rounded quotient, ZeroDivisionError for a
  zero divisor, OverflowError when the quotient is too large for a float.
\<close>

definition int_truediv :: "int \<Rightarrow> int \<Rightarrow> py_error + pyfloat" where
  "int_truediv a b =
     (if b = 0 then Inl ZeroDivisionError
      else if a = 0 then Inr (if b < 0 then NegZero else Fin 0)
      else (case fl (of_int a / of_int b) of
              PosInf \<Rightarrow> Inl OverflowError
            | NegInf \<Rightarrow> Inl OverflowError
            | x \<Rightarrow> Inr x))"

text \<open>\<open>x * c\<close> for a float \<open>x\<close> and a positive finite float constant \<open>c\<close>.\<close>

fun float_mul_pos :: "pyfloat \<Rightarrow> rat \<Rightarrow> pyfloat" where
  "float_mul_pos (Fin q) c = (if q = 0 then Fin 0 else fl (q * c))"
| "float_mul_pos NegZero c = NegZero"
| "float_mul_pos PosInf c = PosInf"
| "float_mul_pos NegInf c = NegInf"

text \<open>
  \<open>round(x, 1)\<close>: the decimal with one fractional digit nearest to the exact value of
  \<open>x\<close> (ties to the even digit), converted back to a float; zeros and infinities
  round to themselves, and a result of zero keeps the sign of \<open>x\<close>.
\<close>

fun py_round1 :: "pyfloat \<Rightarrow> pyfloat" where
  "py_round1 (Fin q) =
     (if q = 0 then Fin 0
      else (let r = round_half_even (q * 10)
            in if r = 0 then (if q < 0 then NegZero else Fin 0)
               else fl (of_int r / 10)))"
| "py_round1 NegZero = NegZero"
| "py_round1 PosInf = PosInf"
| "py_round1 NegInf = NegInf"

subsection \<open>Strings\<close>

text \<open>
  \<open>str.lower()\<close> and \<open>str.upper()\<close> for class names written in ASCII: the ASCII
  letters change case and every other character is left as it is. Python also maps
  letters outside ASCII (\<open>upper\<close> can even lengthen the string); \<open>lower\<close> below agrees
  with Python on whether the result is \<open>sg\<close>, since no character outside ASCII lowers
  to \<open>s\<close> or \<open>g\<close>, while \<open>upper\<close>, which only builds the label drawn on the frame,
  agrees with Python on ASCII names only.
\<close>

definition lower_char :: "char \<Rightarrow> char" where
  "lower_char c =
     (let n = (of_char c :: nat)
      in if 65 \<le> n \<and> n \<le> 90 then char_of (n + 32) else c)"

definition upper_char :: "char \<Rightarrow> char" where
  "upper_char c =
     (let n = (of_char c :: nat)
      in if 97 \<le> n \<and> n \<le> 122 then char_of (n - 32) else c)"

definition lower :: "string \<Rightarrow> string" where
  "lower s = map lower_char s"

definition upper :: "string \<Rightarrow> string" where
  "upper s = map upper_char s"

text \<open>\<open>str(n)\<close> for a non-negative integer, as the f-string \<open>f"Class_{class_id}"\<close> prints it.\<close>

fun str_nat :: "nat \<Rightarrow> string" where
  "str_nat n =
     (if n < 10 then [char_of (48 + n)]
      else str_nat (n div 10) @ [char_of (48 + n mod 10)])"

declare str_nat.simps [simp del]

section \<open>Data model\<close>

text \<open>
  A camera handle (\<open>cv2.VideoCapture\<close> object) and the raw content of a captured image
  are named by identifiers. A frame is the raw image together with what has been drawn on
  it, in drawing order: one labelled box per detection (\<open>cv2.rectangle\<close> and
  \<open>cv2.putText\<close> in \<open>process_detections\<close>) and the status banner of
  \<open>generate_frames\<close>.
\<close>

type_synonym handle = nat

type_synonym color = "nat \<times> nat \<times> nat"

datatype overlay =
    BoxLabel "int \<times> int \<times> int \<times> int" color string rat
  | Banner int bool color

record frame =
  pixels :: nat
  overlays :: "overlay list"

text \<open>One element of \<open>results[0].boxes\<close>, and one element of \<open>results\<close>.\<close>

record box =
  xyxy :: "rat \<times> rat \<times> rat \<times> rat"
  conf :: rat
  cls :: nat

record yolo_result =
  boxes :: "box list option"

text \<open>The dictionary \<open>detection_info\<close> with its keys \<open>class\<close>, \<open>confidence\<close>, \<open>bbox\<close>.\<close>

record detection_info =
  det_class :: string
  det_confidence :: rat
  det_bbox :: "rat \<times> rat \<times> rat \<times> rat"

text \<open>The dictionary \<open>detection_results['stats']\<close> with its keys \<open>total\<close>, \<open>pass\<close>, \<open>ng\<close>.\<close>

record stats_t =
  s_total :: int
  s_pass :: int
  s_ng :: int

record detection_results_t =
  has_sg :: bool
  detections :: "detection_info list"
  fps :: int
  stats :: stats_t

text \<open>The payloads of the two events that \<open>generate_frames\<close> pushes.\<close>

record detection_result_t =
  status :: string
  pass_count :: int
  ng_count :: int
  total_count :: int
  ng_rate :: pyfloat

datatype event = DetectionResult detection_result_t | VideoFrame string

text \<open>
  The object \<open>YOLODetectionSystem\<close>. The attribute \<open>last_detection_time\<close> does not
  exist until the first call of \<open>update_statistics\<close>: \<open>None\<close> stands for the missing
  attribute. The last four fields record what the object has done to its environment:
  the number of \<open>generate_frames\<close> threads it has started, the handles it has released,
  the events it has emitted and the lines it has printed.
\<close>

record detector =
  camera :: "handle option"
  is_running :: bool
  current_frame :: "frame option"
  detection_results :: detection_results_t
  fps_counter :: int
  fps_start_time :: rat
  last_detection_time :: "rat option"
  threads_started :: nat
  released :: "handle list"
  emitted :: "event list"
  printed :: "string list"

text \<open>The object after \<open>__init__\<close>, where \<open>t0\<close> is the clock reading taken there.\<close>

definition init :: "rat \<Rightarrow> detector" where
  "init t0 =
     \<lparr>camera = None, is_running = False, current_frame = None,
      detection_results =
        \<lparr>has_sg = False, detections = [], fps = 0,
         stats = \<lparr>s_total = 0, s_pass = 0, s_ng = 0\<rparr>\<rparr>,
      fps_counter = 0, fps_start_time = t0, last_detection_time = None,
      threads_started = 0, released = [], emitted = [], printed = []\<rparr>"

section \<open>Detections of one frame\<close>

text \<open>\<open>bbox.astype(int)\<close> truncates towards zero.\<close>

definition trunc :: "rat \<Rightarrow> int" where
  "trunc q = (if 0 \<le> q then \<lfloor>q\<rfloor> else \<lceil>q\<rceil>)"

text \<open>
  The body of the \<open>for\<close> loop of \<open>process_detections\<close>, over the boxes that are left,
  with the variables \<open>has_sg\<close>, \<open>detections\<close> and \<open>frame\<close> it updates. \<open>names\<close> is
  \<open>self.model.names\<close>, the class names by class index.
\<close>

fun process_boxes ::
  "string list \<Rightarrow> box list \<Rightarrow> bool \<times> detection_info list \<times> frame
    \<Rightarrow> bool \<times> detection_info list \<times> frame" where
  "process_boxes names [] acc = acc"
| "process_boxes names (b # bs) (sg, dets, frm) =
     (let class_id = cls b;
          class_name = (if class_id < length names then names ! class_id
                        else ''Class_'' @ str_nat class_id);
          detection_info =
            \<lparr>det_class = class_name, det_confidence = conf b, det_bbox = xyxy b\<rparr>;
          dets' = dets @ [detection_info];
          sg' = (if lower class_name = ''sg'' then True else sg);
          (x1, y1, x2, y2) = xyxy b;
          (color, label) =
            (if lower class_name = ''sg'' then ((0, 0, 255), ''SG - DEFECT'')
             else ((0, 255, 255), upper class_name));
          frm' = frm\<lparr>overlays := overlays frm @
                    [BoxLabel (trunc x1, trunc y1, trunc x2, trunc y2) color label (conf b)]\<rparr>
      in process_boxes names bs (sg', dets', frm'))"

definition process_detections ::
  "string list \<Rightarrow> yolo_result list \<Rightarrow> frame \<Rightarrow> bool \<times> detection_info list \<times> frame" where
  "process_detections names results frm =
     (case results of
        [] \<Rightarrow> (False, [], frm)
      | r # _ \<Rightarrow>
          (case boxes r of
             None \<Rightarrow> (False, [], frm)
           | Some bs \<Rightarrow> process_boxes names bs (False, [], frm)))"

text \<open>
  The name that \<open>process_detections\<close> gives to a class index (line 56): the entry of
  \<open>self.model.names\<close>, or \<open>Class_\<close> and the index when there is no entry.
\<close>

definition class_name_of :: "string list \<Rightarrow> nat \<Rightarrow> string" where
  "class_name_of names class_id =
     (if class_id < length names then names ! class_id else ''Class_'' @ str_nat class_id)"

section \<open>Statistics\<close>

text \<open>
  \<open>update_statistics\<close>, where \<open>current_time\<close> is the reading of \<open>time.time()\<close> the call
  takes.
\<close>

definition update_statistics :: "bool \<Rightarrow> rat \<Rightarrow> detector \<Rightarrow> detector" where
  "update_statistics sg current_time s =
     (let s1 = (case last_detection_time s of
                  None \<Rightarrow> s\<lparr>last_detection_time := Some 0\<rparr>
                | Some _ \<Rightarrow> s);
          last = (case last_detection_time s1 of Some t \<Rightarrow> t | None \<Rightarrow> 0);
          dr = detection_results s1;
          st = stats dr
      in if float_gt (float_sub current_time last) 3 then
           (let st1 = st\<lparr>s_total := s_total st + 1\<rparr>;
                st2 = (if sg then st1\<lparr>s_ng := s_ng st1 + 1\<rparr>
                       else st1\<lparr>s_pass := s_pass st1 + 1\<rparr>)
            in s1\<lparr>detection_results := dr\<lparr>stats := st2\<rparr>,
                  last_detection_time := Some current_time\<rparr>)
         else s1)"

definition calculate_fps :: "rat \<Rightarrow> detector \<Rightarrow> detector" where
  "calculate_fps current_time s =
     (let s1 = s\<lparr>fps_counter := fps_counter s + 1\<rparr>
      in if float_ge (float_sub current_time (fps_start_time s1)) 1 then
           s1\<lparr>detection_results := (detection_results s1)\<lparr>fps := fps_counter s1\<rparr>,
              fps_counter := 0,
              fps_start_time := current_time\<rparr>
         else s1)"

section \<open>The inspection loop\<close>

text \<open>
  What the environment supplies to one iteration of the loop of \<open>generate_frames\<close>: the
  result of \<open>camera.read()\<close> (\<open>None\<close> when \<open>ret\<close> is false), the outcome of the call
  of the detection model (its results, or an \<open>Exception\<close> with its message), the two
  clock readings taken by \<open>update_statistics\<close> and \<open>calculate_fps\<close>, and the result of
  \<open>cv2.imencode\<close> in base64 (\<open>None\<close> when \<open>ret\<close> is false).
\<close>

datatype model_outcome = Results "yolo_result list" | Raises string

record tick =
  cam_read :: "nat option"
  model_out :: model_outcome
  stat_clock :: rat
  fps_clock :: rat
  encoded :: "string option"

text \<open>
  The entry \<open>ng_rate\<close> of the \<open>detection_result\<close> dictionary (lines 147 and 148):
  \<open>round(stats['ng'] / max(1, stats['total']) * 100, 1)\<close>.
\<close>

definition ng_rate_entry :: "stats_t \<Rightarrow> py_error + pyfloat" where
  "ng_rate_entry st =
     (case int_truediv (s_ng st) (max 1 (s_total st)) of
        Inl e \<Rightarrow> Inl e
      | Inr x \<Rightarrow> Inr (py_round1 (float_mul_pos x 100)))"

fun error_text :: "py_error \<Rightarrow> string" where
  "error_text ZeroDivisionError = ''division by zero''"
| "error_text OverflowError = ''integer division result too large for a float''"

text \<open>
  The \<open>try\<close> statement of the loop body, for the frame just read. An exception of the
  model call reaches the handler before anything is drawn, so the handler copies the raw
  frame; an exception of the \<open>ng_rate\<close> division reaches it after \<open>process_detections\<close>
  and the banner have drawn on that same frame object.
\<close>

definition loop_body :: "string list \<Rightarrow> tick \<Rightarrow> frame \<Rightarrow> detector \<Rightarrow> detector" where
  "loop_body names t frm s =
     (case model_out t of
        Raises msg \<Rightarrow>
          s\<lparr>printed := printed s @ [''Detection error: '' @ msg],
            current_frame := Some frm\<rparr>
      | Results results \<Rightarrow>
          (let (sg, dets, processed_frame) = process_detections names results frm;
               s1 = s\<lparr>detection_results :=
                       (detection_results s)\<lparr>has_sg := sg, detections := dets\<rparr>\<rparr>;
               s2 = update_statistics sg (stat_clock t) s1;
               s3 = calculate_fps (fps_clock t) s2;
               status_color = (if sg then (0, 0, 255) else (0, 255, 0));
               processed_frame' = processed_frame\<lparr>overlays := overlays processed_frame @
                    [Banner (fps (detection_results s3)) sg status_color]\<rparr>;
               s4 = s3\<lparr>current_frame := Some processed_frame'\<rparr>
           in (case encoded t of
                 None \<Rightarrow> s4
               | Some frame_bytes \<Rightarrow>
                   (let st = stats (detection_results s4)
                    in (case ng_rate_entry st of
                          Inl e \<Rightarrow>
                            s4\<lparr>printed := printed s4 @ [''Detection error: '' @ error_text e],
                               current_frame := Some processed_frame'\<rparr>
                        | Inr r \<Rightarrow>
                            s4\<lparr>emitted := emitted s4 @
                                 [DetectionResult
                                    \<lparr>status = (if sg then ''NG'' else ''PASS''),
                                     pass_count = s_pass st,
                                     ng_count = s_ng st,
                                     total_count = s_total st,
                                     ng_rate = r\<rparr>,
                                  VideoFrame frame_bytes]\<rparr>)))))"

text \<open>
  \<open>generate_frames\<close> on the inputs of the iterations that the environment has supplied
  so far. The loop has \<open>Exited\<close> when its condition or a read has failed; it is
  \<open>Pending\<close> when the inputs are used up and its condition still holds, so that it would
  go on with the next frame.
\<close>

datatype loop_status = Exited | Pending

fun generate_frames :: "string list \<Rightarrow> tick list \<Rightarrow> detector \<Rightarrow> loop_status \<times> detector" where
  "generate_frames names [] s =
     (if is_running s \<and> camera s \<noteq> None then (Pending, s) else (Exited, s))"
| "generate_frames names (t # ts) s =
     (if is_running s \<and> camera s \<noteq> None then
        (case cam_read t of
           None \<Rightarrow> (Exited, s)
         | Some px \<Rightarrow>
             generate_frames names ts (loop_body names t \<lparr>pixels = px, overlays = []\<rparr> s))
      else (Exited, s))"

section \<open>Lifecycle\<close>

text \<open>
  What \<open>cv2.VideoCapture(camera_index)\<close> and the three \<open>camera.set\<close> calls do inside
  the \<open>try\<close> of \<open>initialize_camera\<close>: all succeed and give a handle, the constructor
  raises, or a \<open>set\<close> raises after the handle has been assigned to \<open>self.camera\<close>.
\<close>

datatype open_outcome = Opened handle | CaptureRaised string | SetRaised handle string

fun initialize_camera :: "open_outcome \<Rightarrow> detector \<Rightarrow> bool \<times> detector" where
  "initialize_camera (Opened h) s = (True, s\<lparr>camera := Some h\<rparr>)"
| "initialize_camera (CaptureRaised msg) s =
     (False, s\<lparr>printed := printed s @ [''Error initializing camera: '' @ msg]\<rparr>)"
| "initialize_camera (SetRaised h msg) s =
     (False, s\<lparr>camera := Some h,
               printed := printed s @ [''Error initializing camera: '' @ msg]\<rparr>)"

definition start_detection :: "open_outcome \<Rightarrow> detector \<Rightarrow> bool \<times> detector" where
  "start_detection oc s =
     (case initialize_camera oc s of
        (True, s1) \<Rightarrow>
          (True, s1\<lparr>is_running := True, threads_started := threads_started s1 + 1\<rparr>)
      | (False, s1) \<Rightarrow> (False, s1))"

definition stop_detection :: "detector \<Rightarrow> detector" where
  "stop_detection s =
     (let s1 = s\<lparr>is_running := False\<rparr>
      in (case camera s1 of
            None \<Rightarrow> s1
          | Some h \<Rightarrow> s1\<lparr>released := released s1 @ [h], camera := None\<rparr>))"

definition restart_detection :: "open_outcome \<Rightarrow> detector \<Rightarrow> bool \<times> detector" where
  "restart_detection oc s = start_detection oc (stop_detection s)"

section \<open>Sequences of operations\<close>

text \<open>The three commands of the lifecycle, each with what the camera does when it is opened.\<close>

datatype command = Start open_outcome | Stop | Restart open_outcome

fun run_command :: "command \<Rightarrow> detector \<Rightarrow> detector" where
  "run_command (Start oc) s = snd (start_detection oc s)"
| "run_command Stop s = stop_detection s"
| "run_command (Restart oc) s = snd (restart_detection oc s)"

fun run_commands :: "command list \<Rightarrow> detector \<Rightarrow> detector" where
  "run_commands [] s = s"
| "run_commands (c # cs) s = run_commands cs (run_command c s)"

text \<open>The operations that change the object: a command, a statistics update, an FPS tick.\<close>

datatype operation = Command command | UpdateStatistics bool rat | CalculateFps rat

fun apply_op :: "operation \<Rightarrow> detector \<Rightarrow> detector" where
  "apply_op (Command c) s = run_command c s"
| "apply_op (UpdateStatistics sg now) s = update_statistics sg now s"
| "apply_op (CalculateFps now) s = calculate_fps now s"

fun run :: "operation list \<Rightarrow> detector \<Rightarrow> detector" where
  "run [] s = s"
| "run (x # xs) s = run xs (apply_op x s)"

text \<open>A sequence of statistics updates, each with its flag and its clock reading.\<close>

fun run_updates :: "(bool \<times> rat) list \<Rightarrow> detector \<Rightarrow> detector" where
  "run_updates [] s = s"
| "run_updates (c # cs) s = run_updates cs (update_statistics (fst c) (snd c) s)"

text \<open>
  The test of \<open>update_statistics\<close> on a clock reading: the measured time since the last
  counted event, or since 0 when there is none yet, exceeds 3.0.
\<close>

definition commits :: "rat \<Rightarrow> detector \<Rightarrow> bool" where
  "commits now s =
     float_gt (float_sub now (case last_detection_time s of None \<Rightarrow> 0 | Some t \<Rightarrow> t)) 3"

text \<open>
  Everything that changes the object: an operation, or a run of the inspection loop over
  some iterations.
\<close>

datatype activity = Operation operation | Loop "string list" "tick list"

fun perform :: "activity \<Rightarrow> detector \<Rightarrow> detector" where
  "perform (Operation x) s = apply_op x s"
| "perform (Loop names ticks) s = snd (generate_frames names ticks s)"

fun perform_all :: "activity list \<Rightarrow> detector \<Rightarrow> detector" where
  "perform_all [] s = s"
| "perform_all (a # as) s = perform_all as (perform a s)"

text \<open>The three counters of the object, and what counting one production event does to them.\<close>

definition counters :: "detector \<Rightarrow> stats_t" where
  "counters s = stats (detection_results s)"

definition count_event :: "bool \<Rightarrow> stats_t \<Rightarrow> stats_t" where
  "count_event sg st =
     (if sg then st\<lparr>s_total := s_total st + 1, s_ng := s_ng st + 1\<rparr>
      else st\<lparr>s_total := s_total st + 1, s_pass := s_pass st + 1\<rparr>)"

definition stats_inv :: "stats_t \<Rightarrow> bool" where
  "stats_inv st = (s_total st = s_pass st + s_ng st)"

section \<open>Example inputs\<close>

text \<open>
  The detection of the specification's example: one box of class 0 with confidence 0.9 and
  corners (0, 0, 10, 10); with the class names \<open>['sg']\<close> its label is \<open>sg\<close>.
\<close>

definition sg_example :: "yolo_result list" where
  "sg_example = [\<lparr>boxes = Some [\<lparr>xyxy = (0, 0, 10, 10), conf = 9 / 10, cls = 0\<rparr>]\<rparr>]"

text \<open>
  A result with two boxes, of class 0 and of class 1, a result without boxes, a frame on
  which nothing is drawn, and the inputs of two iterations.
\<close>

definition two_boxes :: yolo_result where
  "two_boxes = \<lparr>boxes = Some [\<lparr>xyxy = (1, 2, 30, 40), conf = 3 / 4, cls = 0\<rparr>,
                                \<lparr>xyxy = (5, 6, 70, 80), conf = 4 / 5, cls = 1\<rparr>]\<rparr>"

definition no_boxes :: yolo_result where
  "no_boxes = \<lparr>boxes = None\<rparr>"

definition blank_frame :: frame where
  "blank_frame = \<lparr>pixels = 0, overlays = []\<rparr>"

definition raising_tick :: tick where
  "raising_tick = \<lparr>cam_read = Some 7, model_out = Raises ''boom'', stat_clock = 10,
                    fps_clock = 10, encoded = Some ''abc''\<rparr>"

definition plain_tick :: tick where
  "plain_tick = \<lparr>cam_read = Some 7, model_out = Results [], stat_clock = 11,
                  fps_clock = 11, encoded = Some ''abc''\<rparr>"

text \<open>An object that has counted four events, three passes and one defect, the last one at time 10.\<close>

definition counted_four :: detector where
  "counted_four =
     (init 0)\<lparr>detection_results :=
                 \<lparr>has_sg = False, detections = [], fps = 0,
                  stats = \<lparr>s_total = 4, s_pass = 3, s_ng = 1\<rparr>\<rparr>,
               last_detection_time := Some 10\<rparr>"

section \<open>Facts about the float operations\<close>

lemma pow2_powi: "pow2 e = 2 powi e"
  by (simp add: pow2_def power_int_def inverse_eq_divide power_one_over)

lemma pow2_pos: "0 < pow2 e"
  by (simp add: pow2_powi)

lemma pow2_add: "pow2 (a + b) = pow2 a * pow2 b"
  by (simp add: pow2_powi power_int_add)

lemma pow2_diff: "pow2 (a - b) = pow2 a / pow2 b"
  by (simp add: pow2_powi power_int_diff)

lemma pow2_strict_mono: "a < b \<Longrightarrow> pow2 a < pow2 b"
  using power_int_strict_increasing [of a b "2::rat"] by (simp add: pow2_powi)

lemma pow2_mono: "a \<le> b \<Longrightarrow> pow2 a \<le> pow2 b"
  using power_int_increasing [of a b "2::rat"] by (simp add: pow2_powi)

lemma pow2_less_iff: "pow2 a < pow2 b \<longleftrightarrow> a < b"
proof
  assume l: "pow2 a < pow2 b"
  show "a < b"
  proof (rule ccontr)
    assume "\<not> a < b"
    then have "pow2 b \<le> pow2 a" by (simp add: pow2_mono)
    with l show False by simp
  qed
qed (rule pow2_strict_mono)

lemma pow2_nat: "pow2 (int n) = 2 ^ n"
  by (simp add: pow2_def)

lemma bitlen_pow2_bounds:
  assumes "0 < a"
  shows "pow2 (bitlen a - 1) \<le> of_int a" and "of_int a < pow2 (bitlen a)"
proof -
  from assms have b: "1 \<le> bitlen a" by (simp add: bitlen_alt_def)
  from bitlen_bounds [OF assms]
  have lo: "2 ^ nat (bitlen a - 1) \<le> a" and hi: "a < 2 ^ nat (bitlen a)" by simp_all
  have "pow2 (bitlen a - 1) = of_int (2 ^ nat (bitlen a - 1))"
    using b by (simp add: pow2_def)
  also have "\<dots> \<le> of_int a" using lo by (simp only: of_int_le_iff)
  finally show "pow2 (bitlen a - 1) \<le> of_int a" .
  have "(of_int a :: rat) < of_int (2 ^ nat (bitlen a))" using hi by (simp only: of_int_less_iff)
  also have "\<dots> = pow2 (bitlen a)" using b by (simp add: pow2_def)
  finally show "of_int a < pow2 (bitlen a)" .
qed

lemma ilog2_lower:
  assumes "0 < q"
  shows "pow2 (ilog2 q) \<le> q"
proof -
  obtain a b where ab: "quotient_of q = (a, b)" by (cases "quotient_of q") auto
  then have bpos: "0 < b" by (rule quotient_of_denom_pos)
  have q: "q = of_int a / of_int b" using ab by (rule quotient_of_div)
  have apos: "0 < a" using assms bpos q by (simp add: zero_less_divide_iff)
  let ?d = "bitlen a - bitlen b"
  have "pow2 (?d - 1) \<le> q"
  proof -
    have "pow2 (?d - 1) = pow2 (bitlen a - 1) / pow2 (bitlen b)"
      using pow2_diff [of "bitlen a - 1" "bitlen b"] by (simp add: algebra_simps)
    also have "\<dots> \<le> of_int a / pow2 (bitlen b)"
      using bitlen_pow2_bounds(1) [OF apos] pow2_pos [of "bitlen b"]
      by (simp add: divide_right_mono)
    also have "\<dots> \<le> of_int a / of_int b"
      using bitlen_pow2_bounds(2) [OF bpos] apos bpos
      by (simp add: frac_le)
    finally show ?thesis using q by simp
  qed
  then show ?thesis using ab by (simp add: ilog2_def Let_def)
qed

lemma round_half_even_le:
  assumes "x \<le> of_int n"
  shows "round_half_even x \<le> n"
proof -
  have f: "\<lfloor>x\<rfloor> \<le> n" using assms by (simp add: floor_le_iff)
  show ?thesis
  proof (cases "\<lfloor>x\<rfloor> = n")
    case True
    then have "of_int n \<le> x" by (metis of_int_floor_le)
    with assms have "x = of_int n" by simp
    then show ?thesis by (simp add: round_half_even_def)
  next
    case False
    with f have "\<lfloor>x\<rfloor> + 1 \<le> n" by simp
    then show ?thesis by (simp add: round_half_even_def Let_def)
  qed
qed

lemma round_half_even_nonneg:
  assumes "0 \<le> x"
  shows "0 \<le> round_half_even x"
proof -
  have "0 \<le> \<lfloor>x\<rfloor>" using assms by simp
  then show ?thesis by (simp add: round_half_even_def Let_def)
qed

lemma round_half_even_of_int: "round_half_even (of_int n) = n"
  by (simp add: round_half_even_def)

lemma fl_pos_cases:
  assumes "0 < q"
  shows "fl_pos q = PosInf \<or> (\<exists>v. fl_pos q = Fin v \<and> 0 \<le> v)"
proof -
  let ?e = "max (ilog2 q - 52) (- 1074)"
  have "0 \<le> q / pow2 ?e" using assms pow2_pos [of ?e] by simp
  then have "0 \<le> round_half_even (q / pow2 ?e)" by (rule round_half_even_nonneg)
  then have "0 \<le> rat_of_int (round_half_even (q / pow2 ?e)) * pow2 ?e"
    using pow2_pos [of ?e] by simp
  then show ?thesis by (simp add: fl_pos_def Let_def)
qed

lemma fl_pos_bounded:
  assumes "0 < q" and "q \<le> of_int k" and "k < 2 ^ 53"
  shows "\<exists>v. fl_pos q = Fin v \<and> 0 \<le> v \<and> v \<le> of_int k"
proof -
  let ?e = "max (ilog2 q - 52) (- 1074)"
  let ?m = "round_half_even (q / pow2 ?e)"
  let ?v = "rat_of_int ?m * pow2 ?e"
  have "pow2 (ilog2 q) \<le> q" using assms(1) by (rule ilog2_lower)
  also have "q \<le> of_int k" by fact
  also have "rat_of_int k < of_int (2 ^ 53)" using assms(3) by (simp only: of_int_less_iff)
  also have "rat_of_int (2 ^ 53) = pow2 53" by (simp add: pow2_def)
  finally have "ilog2 q < 53" by (simp only: pow2_less_iff)
  then have e: "?e \<le> 0" by simp
  have pe: "pow2 ?e = 1 / 2 ^ nat (- ?e)"
  proof (cases "?e = 0")
    case True then show ?thesis by (simp add: pow2_def)
  next
    case False with e show ?thesis by (simp add: pow2_def)
  qed
  have "q / pow2 ?e \<le> of_int k / pow2 ?e"
    using assms(2) pow2_pos [of ?e] by (simp add: divide_right_mono)
  also have "\<dots> = of_int (k * 2 ^ nat (- ?e))" by (simp add: pe)
  finally have "?m \<le> k * 2 ^ nat (- ?e)" by (rule round_half_even_le)
  then have "rat_of_int ?m \<le> rat_of_int (k * 2 ^ nat (- ?e))" by (simp only: of_int_le_iff)
  then have "?v \<le> rat_of_int (k * 2 ^ nat (- ?e)) * pow2 ?e"
    using pow2_pos [of ?e] by (simp add: mult_right_mono)
  also have "\<dots> = of_int k" by (simp add: pe)
  finally have vk: "?v \<le> of_int k" .
  have "rat_of_int k < of_int (2 ^ 53)" using assms(3) by (simp only: of_int_less_iff)
  also have "rat_of_int (2 ^ 53) = pow2 53" by (simp add: pow2_def)
  also have "pow2 53 < pow2 1024" by (simp add: pow2_less_iff)
  finally have "?v < pow2 1024" using vk by simp
  then have "fl_pos q = Fin ?v" by (simp add: fl_pos_def Let_def)
  moreover have "0 \<le> ?v"
  proof -
    have "0 \<le> q / pow2 ?e" using assms(1) pow2_pos [of ?e] by simp
    then have "0 \<le> ?m" by (rule round_half_even_nonneg)
    then show ?thesis using pow2_pos [of ?e] by simp
  qed
  ultimately show ?thesis using vk by blast
qed

lemma float_sub_within:
  assumes "x - y \<le> of_int k" and "0 \<le> k" and "k < 2 ^ 53"
  shows "\<not> float_gt (float_sub x y) (of_int k)"
proof -
  consider "x - y = 0" | "0 < x - y" | "x - y < 0" by linarith
  then show ?thesis
  proof cases
    case 1
    then show ?thesis using assms(2) by (simp add: float_sub_def fl_def)
  next
    case 2
    from fl_pos_bounded [OF 2 assms(1) assms(3)]
    obtain v where "fl_pos (x - y) = Fin v" "v \<le> of_int k" by blast
    with 2 show ?thesis by (simp add: float_sub_def fl_def)
  next
    case 3
    then have p: "0 < - (x - y)" by simp
    have k: "0 \<le> rat_of_int k" using assms(2) by simp
    from fl_pos_cases [OF p] 3 k show ?thesis
      by (auto simp add: float_sub_def fl_def split: if_splits)
  qed
qed

lemma fl_pos_dyadic:
  assumes "0 < n" and "n < 2 ^ 53" and "j \<le> 1074"
  shows "fl_pos (of_int n / 2 ^ j) = Fin (of_int n / 2 ^ j)"
proof -
  define q where "q = rat_of_int n / 2 ^ j"
  define e where "e = max (ilog2 q - 52) (- 1074)"
  define d where "d = nat (- int j - e)"
  have qpos: "0 < q" using assms(1) by (simp add: q_def)
  have q: "q = of_int n * pow2 (- int j)"
    by (simp add: q_def pow2_def)
  have n53: "rat_of_int n < pow2 53"
  proof -
    have "rat_of_int n < of_int (2 ^ 53)" using assms(2) by (simp only: of_int_less_iff)
    then show ?thesis by (simp add: pow2_def)
  qed
  have "pow2 (ilog2 q) \<le> q" using qpos by (rule ilog2_lower)
  also have "q < pow2 53 * pow2 (- int j)"
    unfolding q using n53 pow2_pos [of "- int j"] by (simp add: mult_strict_right_mono)
  also have "\<dots> = pow2 (53 - int j)" using pow2_add [of 53 "- int j"] by simp
  finally have "ilog2 q < 53 - int j" by (simp only: pow2_less_iff)
  with assms(3) have "e \<le> - int j" by (simp add: e_def)
  then have de: "int d = - int j - e" by (simp add: d_def)
  have p: "pow2 (- int j) = of_int (2 ^ d) * pow2 e"
  proof -
    have "pow2 (- int j) = pow2 (int d + e)" using de by simp
    also have "\<dots> = pow2 (int d) * pow2 e" by (rule pow2_add)
    finally show ?thesis by (simp add: pow2_nat)
  qed
  have "q / pow2 e = of_int (n * 2 ^ d)"
    unfolding q p using pow2_pos [of e] by simp
  then have m: "round_half_even (q / pow2 e) = n * 2 ^ d"
    by (simp only: round_half_even_of_int)
  have v: "rat_of_int (n * 2 ^ d) * pow2 e = q"
    unfolding q p by simp
  have "q \<le> of_int n"
    using assms(1) by (simp add: q_def divide_le_eq_1_pos mult_imp_div_pos_le)
  also note n53
  also have "pow2 53 < pow2 1024" by (simp add: pow2_less_iff)
  finally have "\<not> pow2 1024 \<le> q" by simp
  then have "fl_pos q = Fin q"
    unfolding fl_pos_def Let_def e_def [symmetric] m v by simp
  then show ?thesis by (simp add: q_def)
qed

lemma fl_int: "0 < n \<Longrightarrow> n < 2 ^ 53 \<Longrightarrow> fl (of_int n) = Fin (of_int n)"
  using fl_pos_dyadic [of n 0] by (simp add: fl_def)

lemma fl_10: "fl 10 = Fin 10"
  using fl_int [of 10] by simp

lemma fl_25: "fl 25 = Fin 25"
  using fl_int [of 25] by simp

lemma fl_quarter: "fl (1 / 4) = Fin (1 / 4)"
  using fl_pos_dyadic [of 1 2] by (simp add: fl_def)

lemma fl_1: "fl 1 = Fin 1"
  using fl_int [of 1] by simp

lemma ilog2_upper:
  assumes "0 < q"
  shows "q < pow2 (ilog2 q + 1)"
proof -
  obtain a b where ab: "quotient_of q = (a, b)" by (cases "quotient_of q") auto
  then have bpos: "0 < b" by (rule quotient_of_denom_pos)
  have q: "q = of_int a / of_int b" using ab by (rule quotient_of_div)
  have apos: "0 < a" using assms bpos q by (simp add: zero_less_divide_iff)
  let ?d = "bitlen a - bitlen b"
  have "q < pow2 (?d + 1)"
  proof -
    have "of_int a / of_int b < pow2 (bitlen a) / of_int b"
      using bitlen_pow2_bounds(2) [OF apos] bpos by (simp add: divide_strict_right_mono)
    also have "\<dots> \<le> pow2 (bitlen a) / pow2 (bitlen b - 1)"
      using bitlen_pow2_bounds(1) [OF bpos] pow2_pos [of "bitlen b - 1"] pow2_pos [of "bitlen a"]
      by (simp add: frac_le)
    also have "\<dots> = pow2 (?d + 1)"
      using pow2_diff [of "bitlen a" "bitlen b - 1"] by (simp add: algebra_simps)
    finally show ?thesis using q by simp
  qed
  then show ?thesis using ab by (auto simp add: ilog2_def Let_def not_le)
qed

lemma ilog2_unique:
  assumes "0 < q" and "pow2 k \<le> q" and "q < pow2 (k + 1)"
  shows "ilog2 q = k"
proof -
  have "pow2 (ilog2 q) \<le> q" using assms(1) by (rule ilog2_lower)
  also note assms(3)
  finally have a: "ilog2 q < k + 1" by (simp only: pow2_less_iff)
  note assms(2)
  also have "q < pow2 (ilog2 q + 1)" using assms(1) by (rule ilog2_upper)
  finally have b: "k < ilog2 q + 1" by (simp only: pow2_less_iff)
  from a b show ?thesis by simp
qed

lemma fl_pos_eval:
  assumes "0 < q" and "pow2 k \<le> q" and "q < pow2 (k + 1)"
      and "e = max (k - 52) (- 1074)"
      and "round_half_even (q / pow2 e) = m"
      and "of_int m * pow2 e = v" and "v < pow2 1024"
  shows "fl_pos q = Fin v"
proof -
  have "ilog2 q = k" using assms(1-3) by (rule ilog2_unique)
  then show ?thesis
    using assms(4-7) by (simp add: fl_pos_def Let_def)
qed

lemma below_pow2_1024: "v < 128 \<Longrightarrow> v < pow2 1024"
proof -
  assume "v < 128"
  also have "(128::rat) = pow2 7" by (simp add: pow2_def)
  also have "pow2 7 \<le> pow2 1024" by (rule pow2_mono) simp
  finally show ?thesis .
qed

lemma round_half_even_near:
  assumes "of_int m - 1 / 2 < x" and "x < of_int m + 1 / 2"
  shows "round_half_even x = m"
proof (cases "of_int m \<le> x")
  case True
  with assms(2) have f: "\<lfloor>x\<rfloor> = m" by (simp add: floor_unique)
  show ?thesis using assms(2) by (simp add: round_half_even_def Let_def f)
next
  case False
  then have "of_int (m - 1) \<le> x" "x < of_int (m - 1) + 1" using assms(1) by simp_all
  then have f: "\<lfloor>x\<rfloor> = m - 1" by (rule floor_unique)
  show ?thesis using assms(1) by (simp add: round_half_even_def Let_def f)
qed

lemma round_half_even_tie:
  assumes "x = of_int m + 1 / 2"
  shows "round_half_even x = (if even m then m else m + 1)"
proof -
  have "of_int m \<le> x" "x < of_int m + 1" using assms by simp_all
  then have f: "\<lfloor>x\<rfloor> = m" by (rule floor_unique)
  have r: "x - of_int m = 1 / 2" using assms by simp
  show ?thesis unfolding round_half_even_def Let_def f r by simp
qed

lemma fl_pos_exact:
  assumes "0 < n" and "n < 2 ^ 53" and "- 1074 \<le> e" and "e \<le> 971"
  shows "fl_pos (of_int n * pow2 e) = Fin (of_int n * pow2 e)"
proof -
  define q where "q = rat_of_int n * pow2 e"
  define e' where "e' = max (ilog2 q - 52) (- 1074)"
  define d where "d = nat (e - e')"
  have qpos: "0 < q" using assms(1) pow2_pos [of e] by (simp add: q_def)
  have n53: "rat_of_int n < pow2 53"
  proof -
    have "rat_of_int n < of_int (2 ^ 53)" using assms(2) by (simp only: of_int_less_iff)
    then show ?thesis by (simp add: pow2_def)
  qed
  have qlt: "q < pow2 (53 + e)"
    unfolding q_def pow2_add using n53 pow2_pos [of e] by (simp add: mult_strict_right_mono)
  have "pow2 (ilog2 q) \<le> q" using qpos by (rule ilog2_lower)
  also note qlt
  finally have "ilog2 q < 53 + e" by (simp only: pow2_less_iff)
  with assms(3) have "e' \<le> e" by (simp add: e'_def)
  then have de: "int d = e - e'" by (simp add: d_def)
  have p: "pow2 e = of_int (2 ^ d) * pow2 e'"
  proof -
    have "pow2 e = pow2 (int d + e')" using de by simp
    also have "\<dots> = pow2 (int d) * pow2 e'" by (rule pow2_add)
    finally show ?thesis by (simp add: pow2_nat)
  qed
  have "q / pow2 e' = of_int (n * 2 ^ d)"
    unfolding q_def p using pow2_pos [of e'] by simp
  then have m: "round_half_even (q / pow2 e') = n * 2 ^ d"
    by (simp only: round_half_even_of_int)
  have v: "rat_of_int (n * 2 ^ d) * pow2 e' = q"
    unfolding q_def p by simp
  have "pow2 (53 + e) \<le> pow2 1024" using assms(4) by (intro pow2_mono) simp
  with qlt have "\<not> pow2 1024 \<le> q" by simp
  then have "fl_pos q = Fin q"
    unfolding fl_pos_def Let_def e'_def [symmetric] m v by simp
  then show ?thesis by (simp add: q_def)
qed

lemma fl_third: "fl (1 / 3) = Fin (6004799503160661 / 18014398509481984)"
proof -
  have "fl_pos (1 / 3) = Fin (6004799503160661 / 18014398509481984)"
  proof (rule fl_pos_eval [where k = "- 2" and e = "- 54" and m = 6004799503160661])
    show "round_half_even (1 / 3 / pow2 (- 54)) = 6004799503160661"
      by (rule round_half_even_near) (simp_all add: pow2_def)
    show "(6004799503160661 / 18014398509481984 :: rat) < pow2 1024"
      by (rule below_pow2_1024) simp
  qed (simp_all add: pow2_def)
  then show ?thesis by (simp add: fl_def)
qed

lemma fl_third_times_100: "fl (150119987579016525 / 4503599627370496) = Fin (2345624805922133 / 70368744177664)"
proof -
  have "fl_pos (150119987579016525 / 4503599627370496) = Fin (2345624805922133 / 70368744177664)"
  proof (rule fl_pos_eval [where k = "5" and e = "- 47" and m = 4691249611844266])
    show "round_half_even (150119987579016525 / 4503599627370496 / pow2 (- 47)) = 4691249611844266"
      by (rule round_half_even_near) (simp_all add: pow2_def)
    show "(2345624805922133 / 70368744177664 :: rat) < pow2 1024"
      by (rule below_pow2_1024) simp
  qed (simp_all add: pow2_def)
  then show ?thesis by (simp add: fl_def)
qed

lemma fl_33_3: "fl (333 / 10) = Fin (2343279181116211 / 70368744177664)"
proof -
  have "fl_pos (333 / 10) = Fin (2343279181116211 / 70368744177664)"
  proof (rule fl_pos_eval [where k = "5" and e = "- 47" and m = 4686558362232422])
    show "round_half_even (333 / 10 / pow2 (- 47)) = 4686558362232422"
      by (rule round_half_even_near) (simp_all add: pow2_def)
    show "(2343279181116211 / 70368744177664 :: rat) < pow2 1024"
      by (rule below_pow2_1024) simp
  qed (simp_all add: pow2_def)
  then show ?thesis by (simp add: fl_def)
qed

lemma fl_6_2: "fl (31 / 5) = Fin (6980579422424269 / 1125899906842624)"
proof -
  have "fl_pos (31 / 5) = Fin (6980579422424269 / 1125899906842624)"
  proof (rule fl_pos_eval [where k = "2" and e = "- 50" and m = 6980579422424269])
    show "round_half_even (31 / 5 / pow2 (- 50)) = 6980579422424269"
      by (rule round_half_even_near) (simp_all add: pow2_def)
    show "(6980579422424269 / 1125899906842624 :: rat) < pow2 1024"
      by (rule below_pow2_1024) simp
  qed (simp_all add: pow2_def)
  then show ?thesis by (simp add: fl_def)
qed

lemma fl_two_sevenths: "fl (2 / 7) = Fin (2573485501354569 / 9007199254740992)"
proof -
  have "fl_pos (2 / 7) = Fin (2573485501354569 / 9007199254740992)"
  proof (rule fl_pos_eval [where k = "- 2" and e = "- 54" and m = 5146971002709138])
    show "round_half_even (2 / 7 / pow2 (- 54)) = 5146971002709138"
      by (rule round_half_even_near) (simp_all add: pow2_def)
    show "(2573485501354569 / 9007199254740992 :: rat) < pow2 1024"
      by (rule below_pow2_1024) simp
  qed (simp_all add: pow2_def)
  then show ?thesis by (simp add: fl_def)
qed

lemma fl_two_sevenths_times_100: "fl (64337137533864225 / 2251799813685248) = Fin (2010535547933257 / 70368744177664)"
proof -
  have "fl_pos (64337137533864225 / 2251799813685248) = Fin (2010535547933257 / 70368744177664)"
  proof (rule fl_pos_eval [where k = "4" and e = "- 48" and m = 8042142191733028])
    show "round_half_even (64337137533864225 / 2251799813685248 / pow2 (- 48)) = 8042142191733028"
      by (rule round_half_even_near) (simp_all add: pow2_def)
    show "(2010535547933257 / 70368744177664 :: rat) < pow2 1024"
      by (rule below_pow2_1024) simp
  qed (simp_all add: pow2_def)
  then show ?thesis by (simp add: fl_def)
qed

lemma fl_28_6: "fl (143 / 5) = Fin (4025092166962381 / 140737488355328)"
proof -
  have "fl_pos (143 / 5) = Fin (4025092166962381 / 140737488355328)"
  proof (rule fl_pos_eval [where k = "4" and e = "- 48" and m = 8050184333924762])
    show "round_half_even (143 / 5 / pow2 (- 48)) = 8050184333924762"
      by (rule round_half_even_near) (simp_all add: pow2_def)
    show "(4025092166962381 / 140737488355328 :: rat) < pow2 1024"
      by (rule below_pow2_1024) simp
  qed (simp_all add: pow2_def)
  then show ?thesis by (simp add: fl_def)
qed

lemma fl_sixteenth: "fl (1 / 16) = Fin (1 / 16)"
  using fl_pos_dyadic [of 1 4] by (simp add: fl_def)

lemma fl_25_4: "fl (25 / 4) = Fin (25 / 4)"
  using fl_pos_dyadic [of 25 2] by (simp add: fl_def)

lemma fl_bounded:
  assumes "0 \<le> q" and "q \<le> of_int k" and "k < 2 ^ 53"
  shows "\<exists>v. fl q = Fin v \<and> 0 \<le> v \<and> v \<le> of_int k"
proof (cases "q = 0")
  case True
  with assms show ?thesis by (simp add: fl_def)
next
  case False
  with assms(1) have p: "0 < q" by simp
  from fl_pos_bounded [OF p assms(2) assms(3)] p show ?thesis by (simp add: fl_def)
qed

lemma py_round1_bounded:
  assumes "0 \<le> w" and "w \<le> 100"
  shows "\<exists>u. py_round1 (Fin w) = Fin u \<and> 0 \<le> u \<and> u \<le> 100"
proof (cases "w = 0")
  case True
  then show ?thesis by simp
next
  case False
  let ?r = "round_half_even (w * 10)"
  have r0: "0 \<le> ?r" using assms(1) by (simp add: round_half_even_nonneg)
  have "w * 10 \<le> rat_of_int 1000" using assms(2) by simp
  then have r1: "?r \<le> 1000" by (rule round_half_even_le)
  show ?thesis
  proof (cases "?r = 0")
    case True
    with False assms(1) show ?thesis by (simp add: Let_def)
  next
    case r: False
    have a: "0 \<le> rat_of_int ?r / 10" using r0 by simp
    have b: "rat_of_int ?r / 10 \<le> rat_of_int 100"
    proof -
      have "rat_of_int ?r \<le> rat_of_int 1000" using r1 by (simp only: of_int_le_iff)
      then show ?thesis by simp
    qed
    from fl_bounded [OF a b] obtain u where "fl (rat_of_int ?r / 10) = Fin u" "0 \<le> u" "u \<le> 100"
      by auto
    with False r show ?thesis by (simp add: Let_def)
  qed
qed

section \<open>The counters under each operation\<close>

lemma counters_update_statistics:
  "counters (update_statistics sg now s) =
     (if commits now s then count_event sg (counters s) else counters s)"
  by (simp add: update_statistics_def commits_def counters_def count_event_def Let_def
      split: option.splits)

lemma last_update_statistics:
  "last_detection_time (update_statistics sg now s) =
     (if commits now s then Some now
      else (case last_detection_time s of None \<Rightarrow> Some 0 | Some t \<Rightarrow> Some t))"
  by (simp add: update_statistics_def commits_def Let_def split: option.splits)

lemma counters_calculate_fps: "counters (calculate_fps now s) = counters s"
  by (simp add: calculate_fps_def counters_def Let_def)

lemma counters_start_detection: "counters (snd (start_detection oc s)) = counters s"
  by (cases oc) (simp_all add: start_detection_def counters_def)

lemma counters_stop_detection: "counters (stop_detection s) = counters s"
  by (simp add: stop_detection_def counters_def Let_def split: option.splits)

lemma counters_restart_detection: "counters (snd (restart_detection oc s)) = counters s"
  by (simp add: restart_detection_def counters_start_detection counters_stop_detection)

lemma counters_run_command: "counters (run_command c s) = counters s"
  by (cases c)
    (simp_all add: counters_start_detection counters_stop_detection counters_restart_detection)

lemma counters_run_commands: "counters (run_commands cs s) = counters s"
  by (induction cs arbitrary: s) (simp_all add: counters_run_command)

lemma counters_loop_body:
  "counters (loop_body names t frm s) =
     (case model_out t of
        Raises msg \<Rightarrow> counters s
      | Results rs \<Rightarrow>
          (if commits (stat_clock t) s
           then count_event (fst (process_detections names rs frm)) (counters s)
           else counters s))"
proof (cases "model_out t")
  case (Raises msg)
  then show ?thesis by (simp add: loop_body_def counters_def)
next
  case (Results rs)
  obtain sg dets pf where pd: "process_detections names rs frm = (sg, dets, pf)"
    by (cases "process_detections names rs frm") auto
  let ?s1 = "s\<lparr>detection_results := (detection_results s)\<lparr>has_sg := sg, detections := dets\<rparr>\<rparr>"
  have c1: "counters ?s1 = counters s" by (simp add: counters_def)
  have k1: "commits (stat_clock t) ?s1 = commits (stat_clock t) s" by (simp add: commits_def)
  have "counters (loop_body names t frm s)
          = counters (calculate_fps (fps_clock t) (update_statistics sg (stat_clock t) ?s1))"
    using Results pd
    by (simp add: loop_body_def Let_def counters_def split: option.splits sum.splits)
  also have "\<dots> = (if commits (stat_clock t) s then count_event sg (counters s) else counters s)"
    by (simp add: counters_calculate_fps counters_update_statistics c1 k1)
  finally show ?thesis using Results pd by simp
qed

subsection \<open>The invariant of the counters\<close>

lemma stats_inv_count_event: "stats_inv st \<Longrightarrow> stats_inv (count_event sg st)"
  by (simp add: stats_inv_def count_event_def)

lemma stats_inv_apply_op: "stats_inv (counters s) \<Longrightarrow> stats_inv (counters (apply_op x s))"
  by (cases x)
    (simp_all add: counters_run_command counters_update_statistics counters_calculate_fps
      stats_inv_count_event)

lemma stats_inv_loop_body:
  "stats_inv (counters s) \<Longrightarrow> stats_inv (counters (loop_body names t frm s))"
  by (simp add: counters_loop_body stats_inv_count_event split: model_outcome.splits)

lemma stats_inv_generate_frames:
  "stats_inv (counters s) \<Longrightarrow> stats_inv (counters (snd (generate_frames names ticks s)))"
  by (induction ticks arbitrary: s) (simp_all add: stats_inv_loop_body split: option.splits)

lemma stats_inv_perform: "stats_inv (counters s) \<Longrightarrow> stats_inv (counters (perform a s))"
  by (cases a) (simp_all add: stats_inv_apply_op stats_inv_generate_frames)

lemma stats_inv_perform_all:
  "stats_inv (counters s) \<Longrightarrow> stats_inv (counters (perform_all as s))"
  by (induction as arbitrary: s) (simp_all add: stats_inv_perform)

lemma stats_inv_init: "stats_inv (counters (init t0))"
  by (simp add: stats_inv_def counters_def init_def)

text \<open>
  C3. The counters start at total 0, pass 0, ng 0, and in every state that the object
  reaches from there, by any sequence of statistics updates (counting or not), FPS ticks,
  commands and runs of the inspection loop, total equals pass plus ng.
\<close>

theorem stats_total_is_pass_plus_ng:
  "counters (init t0) = \<lparr>s_total = 0, s_pass = 0, s_ng = 0\<rparr>
   \<and> s_total (counters (perform_all as (init t0)))
       = s_pass (counters (perform_all as (init t0)))
         + s_ng (counters (perform_all as (init t0)))"
  using stats_inv_perform_all [OF stats_inv_init, of as t0]
  by (simp add: stats_inv_def counters_def init_def)

text \<open>
  C7. \<open>stop_detection\<close>, \<open>start_detection\<close> and \<open>restart_detection\<close> leave the three
  counters as they are, whatever the camera does when it is opened, and so does every
  sequence of these commands.
\<close>

theorem lifecycle_keeps_counters:
  "counters (stop_detection s) = counters s
   \<and> counters (snd (start_detection oc s)) = counters s
   \<and> counters (snd (restart_detection oc s)) = counters s
   \<and> counters (run_commands cs s) = counters s"
  by (simp add: counters_stop_detection counters_start_detection counters_restart_detection
      counters_run_commands)

text \<open>
  C9. \<open>stop_detection\<close> is idempotent: a second call changes nothing, and in a stopped
  state (not running, no camera held) the call changes nothing at all.
\<close>

theorem stop_detection_idempotent:
  "stop_detection (stop_detection s) = stop_detection s
   \<and> (\<not> is_running s \<and> camera s = None \<longrightarrow> stop_detection s = s)"
  by (simp add: stop_detection_def Let_def split: option.splits)

theorem stop_detection_idempotent_witness:
  "\<not> is_running (init 0) \<and> camera (init 0) = None \<and> stop_detection (init 0) = init 0"
  using stop_detection_idempotent [of "init 0"] by (simp add: init_def)

subsection \<open>Monotonicity of the counters\<close>

lemma commits_init_10: "commits 10 (init 0)"
  by (simp add: commits_def init_def float_sub_def fl_10)

lemma count_event_fields:
  "s_total (count_event sg st) = s_total st + 1"
  "s_ng (count_event sg st) = (if sg then s_ng st + 1 else s_ng st)"
  "s_pass (count_event sg st) = (if sg then s_pass st else s_pass st + 1)"
  by (simp_all add: count_event_def)

lemma count_event_neq: "count_event sg st \<noteq> st"
proof
  assume "count_event sg st = st"
  then have "s_total (count_event sg st) = s_total st" by simp
  then show False by (simp add: count_event_fields)
qed

lemma counters_mono_apply_op:
  "s_total (counters s) \<le> s_total (counters (apply_op x s))
   \<and> s_pass (counters s) \<le> s_pass (counters (apply_op x s))
   \<and> s_ng (counters s) \<le> s_ng (counters (apply_op x s))"
  by (cases x)
    (simp_all add: counters_run_command counters_update_statistics counters_calculate_fps
      count_event_fields)

lemma counters_mono_run:
  "s_total (counters s) \<le> s_total (counters (run xs s))
   \<and> s_pass (counters s) \<le> s_pass (counters (run xs s))
   \<and> s_ng (counters s) \<le> s_ng (counters (run xs s))"
proof (induction xs arbitrary: s)
  case Nil
  show ?case by simp
next
  case (Cons x xs)
  from Cons [of "apply_op x s"] counters_mono_apply_op [of s x]
  show ?case by simp
qed

lemma counters_changed_apply_op:
  assumes "counters (apply_op x s) \<noteq> counters s"
  shows "\<exists>sg now. x = UpdateStatistics sg now \<and> commits now s
           \<and> counters (apply_op x s) = count_event sg (counters s)"
  using assms
  by (cases x)
    (simp_all add: counters_run_command counters_update_statistics counters_calculate_fps
      split: if_splits)

text \<open>
  C10. No operation (statistics update, FPS tick, start, stop, restart), and so no sequence
  of operations, decreases total, pass or ng. An operation that changes a counter is a
  statistics update whose test succeeds, and it adds 1 to total and 1 to exactly one of
  ng (defect seen) and pass (no defect).
\<close>

theorem counters_never_decrease:
  "s_total (counters s) \<le> s_total (counters (run xs s))
   \<and> s_pass (counters s) \<le> s_pass (counters (run xs s))
   \<and> s_ng (counters s) \<le> s_ng (counters (run xs s))
   \<and> (counters (apply_op x s) \<noteq> counters s \<longrightarrow>
        (\<exists>sg now. x = UpdateStatistics sg now \<and> commits now s
           \<and> s_total (counters (apply_op x s)) = s_total (counters s) + 1
           \<and> (if sg
               then s_ng (counters (apply_op x s)) = s_ng (counters s) + 1
                    \<and> s_pass (counters (apply_op x s)) = s_pass (counters s)
               else s_pass (counters (apply_op x s)) = s_pass (counters s) + 1
                    \<and> s_ng (counters (apply_op x s)) = s_ng (counters s))))"
  (is "_ \<and> _ \<and> _ \<and> (?changed \<longrightarrow> ?how)")
proof -
  have "?how" if "?changed"
  proof (cases x)
    case (Command c)
    with that show ?thesis by (simp add: counters_run_command)
  next
    case (UpdateStatistics sg now)
    with that show ?thesis
      by (simp add: counters_update_statistics count_event_fields split: if_splits)
  next
    case (CalculateFps now)
    with that show ?thesis by (simp add: counters_calculate_fps)
  qed
  with counters_mono_run [of s xs] show ?thesis by blast
qed

theorem counters_never_decrease_witness:
  "counters (apply_op (UpdateStatistics True 10) (init 0)) \<noteq> counters (init 0)
   \<and> s_total (counters (apply_op (UpdateStatistics True 10) (init 0))) = 1
   \<and> s_ng (counters (apply_op (UpdateStatistics True 10) (init 0))) = 1
   \<and> s_pass (counters (apply_op (UpdateStatistics True 10) (init 0))) = 0"
proof -
  have k: "commits 10 (init 0)" by (rule commits_init_10)
  have c: "counters (init 0) = \<lparr>s_total = 0, s_pass = 0, s_ng = 0\<rparr>"
    by (simp add: counters_def init_def)
  have h: "counters (apply_op (UpdateStatistics True 10) (init 0)) \<noteq> counters (init 0)"
    using k by (simp add: counters_update_statistics count_event_neq)
  from counters_never_decrease [of "init 0" "[]" "UpdateStatistics True 10"] h c
  show ?thesis by auto
qed

section \<open>The debounce window\<close>

lemma update_statistics_skip:
  assumes "last_detection_time s = Some t0" and "\<not> commits now s"
  shows "update_statistics sg now s = s"
  using assms by (simp add: update_statistics_def commits_def Let_def)

lemma not_commits_within:
  assumes "last_detection_time s = Some t0" and "now - t0 \<le> 3"
  shows "\<not> commits now s"
  using float_sub_within [of now t0 3] assms by (simp add: commits_def)

lemma run_updates_within:
  assumes "last_detection_time s = Some t0" and "\<forall>c\<in>set calls. snd c - t0 \<le> 3"
  shows "run_updates calls s = s"
  using assms
proof (induction calls)
  case Nil
  show ?case by simp
next
  case (Cons c cs)
  then have "update_statistics (fst c) (snd c) s = s"
    by (simp add: update_statistics_skip not_commits_within)
  with Cons show ?case by simp
qed

text \<open>
  C2. A statistics update that counts an event at time \<open>now0\<close> opens the debounce window.
  Every later call whose timestamp lies at most 3.0 seconds after \<open>now0\<close> is a no-op:
  total, pass, ng and the last event time stay as they are. So over the counting call and
  any number of calls within its window, exactly one call counts and total goes up by
  exactly one.
\<close>

theorem debounce_window_counts_once:
  assumes "commits now0 s" and "\<forall>c\<in>set calls. snd c - now0 \<le> 3"
  shows "run_updates ((sg0, now0) # calls) s = update_statistics sg0 now0 s
         \<and> counters (run_updates ((sg0, now0) # calls) s) = count_event sg0 (counters s)
         \<and> s_total (counters (run_updates ((sg0, now0) # calls) s)) = s_total (counters s) + 1
         \<and> last_detection_time (run_updates ((sg0, now0) # calls) s) = Some now0
         \<and> (\<forall>c\<in>set calls.
               update_statistics (fst c) (snd c) (update_statistics sg0 now0 s)
                 = update_statistics sg0 now0 s)"
proof -
  let ?s1 = "update_statistics sg0 now0 s"
  have l: "last_detection_time ?s1 = Some now0"
    using assms(1) by (simp add: last_update_statistics)
  have r: "run_updates calls ?s1 = ?s1"
    using l assms(2) by (rule run_updates_within)
  have c: "counters ?s1 = count_event sg0 (counters s)"
    using assms(1) by (simp add: counters_update_statistics)
  have n: "\<forall>c\<in>set calls. update_statistics (fst c) (snd c) ?s1 = ?s1"
    using l assms(2) by (simp add: update_statistics_skip not_commits_within)
  show ?thesis using l r c n by (simp add: count_event_fields)
qed

theorem debounce_window_counts_once_witness:
  "commits 10 (init 0)
   \<and> (11::rat) - 10 \<le> 3 \<and> (25::rat) / 2 - 10 \<le> 3 \<and> (13::rat) - 10 \<le> 3
   \<and> s_total (counters (run_updates [(False, 10), (True, 11), (False, 25 / 2), (True, 13)] (init 0))) = 1
   \<and> last_detection_time (run_updates [(False, 10), (True, 11), (False, 25 / 2), (True, 13)] (init 0)) = Some 10"
proof -
  have h1: "commits 10 (init 0)" by (rule commits_init_10)
  have h2: "\<forall>c\<in>set [(True, 11), (False, 25 / 2), (True, 13)]. snd c - 10 \<le> (3::rat)" by simp
  have c: "counters (init 0) = \<lparr>s_total = 0, s_pass = 0, s_ng = 0\<rparr>"
    by (simp add: counters_def init_def)
  note w = debounce_window_counts_once [OF h1 h2, of False]
  from w have a: "s_total (counters (run_updates
        ((False, 10) # [(True, 11), (False, 25 / 2), (True, 13)]) (init 0)))
      = s_total (counters (init 0)) + 1" by blast
  from w have b: "last_detection_time (run_updates
        ((False, 10) # [(True, 11), (False, 25 / 2), (True, 13)]) (init 0)) = Some 10" by blast
  have a': "s_total (counters (run_updates
        [(False, 10), (True, 11), (False, 25 / 2), (True, 13)] (init 0))) = 1"
    using a by (simp only: c) simp
  show ?thesis using h1 a' b by simp
qed

lemma commits_first_double:
  assumes "last_detection_time s = None"
      and "now = of_int n * pow2 e" and "0 < n" and "n < 2 ^ 53"
      and "- 1074 \<le> e" and "e \<le> 971" and "3 < now"
  shows "commits now s"
proof -
  have "fl_pos now = Fin now" unfolding assms(2) using assms(3-6) by (rule fl_pos_exact)
  then have "fl now = Fin now" using assms(7) by (simp add: fl_def)
  then show ?thesis using assms(1,7) by (simp add: commits_def float_sub_def)
qed

text \<open>
  C4. The first call ever made to the statistics update counts a production event, for
  every reading \<open>now\<close> of the clock: a finite binary64 number \<open>n \<times> 2\<^sup>e\<close> later than
  3 seconds after the epoch, as \<open>time.time()\<close> returns it. The missing last event time
  is taken to be 0, so the test \<open>now - 0 > 3.0\<close> succeeds: total is incremented, ng or
  pass is incremented according to the flag, and the last event time becomes \<open>now\<close>.
\<close>

theorem first_update_commits:
  assumes "last_detection_time s = None"
      and "now = of_int n * pow2 e" and "0 < n" and "n < 2 ^ 53"
      and "- 1074 \<le> e" and "e \<le> 971" and "3 < now"
  shows "commits now s
         \<and> s_total (counters (update_statistics sg now s)) = s_total (counters s) + 1
         \<and> s_ng (counters (update_statistics sg now s))
             = (if sg then s_ng (counters s) + 1 else s_ng (counters s))
         \<and> s_pass (counters (update_statistics sg now s))
             = (if sg then s_pass (counters s) else s_pass (counters s) + 1)
         \<and> last_detection_time (update_statistics sg now s) = Some now"
  using commits_first_double [OF assms]
  by (simp add: counters_update_statistics last_update_statistics count_event_fields)

theorem first_update_commits_witness:
  "last_detection_time (init 0) = None
   \<and> (3400000001 / 2 :: rat) = of_int 3400000001 * pow2 (- 1)
   \<and> (0::int) < 3400000001 \<and> (3400000001::int) < 2 ^ 53
   \<and> (- 1074 :: int) \<le> - 1 \<and> (- 1 :: int) \<le> 971 \<and> (3::rat) < 3400000001 / 2
   \<and> commits (3400000001 / 2) (init 0)
   \<and> s_total (counters (update_statistics True (3400000001 / 2) (init 0))) = 1
   \<and> s_ng (counters (update_statistics True (3400000001 / 2) (init 0))) = 1
   \<and> s_pass (counters (update_statistics True (3400000001 / 2) (init 0))) = 0
   \<and> last_detection_time (update_statistics True (3400000001 / 2) (init 0))
       = Some (3400000001 / 2)"
proof -
  have h1: "last_detection_time (init 0) = None" by (simp add: init_def)
  have h2: "(3400000001 / 2 :: rat) = of_int 3400000001 * pow2 (- 1)" by (simp add: pow2_def)
  have h3: "(0::int) < 3400000001" by simp
  have h4: "(3400000001::int) < 2 ^ 53" by simp
  have h5: "(- 1074 :: int) \<le> - 1" by simp
  have h6: "(- 1 :: int) \<le> 971" by simp
  have h7: "(3::rat) < 3400000001 / 2" by simp
  have c: "counters (init 0) = \<lparr>s_total = 0, s_pass = 0, s_ng = 0\<rparr>"
    by (simp add: counters_def init_def)
  note w = first_update_commits [OF h1 h2 h3 h4 h5 h6 h7, of True]
  from w have a: "commits (3400000001 / 2) (init 0)" by blast
  from w have b: "s_total (counters (update_statistics True (3400000001 / 2) (init 0)))
      = s_total (counters (init 0)) + 1" by blast
  from w have d: "s_ng (counters (update_statistics True (3400000001 / 2) (init 0)))
      = s_ng (counters (init 0)) + 1" by simp
  from w have e: "s_pass (counters (update_statistics True (3400000001 / 2) (init 0)))
      = s_pass (counters (init 0))" by simp
  from w have l: "last_detection_time (update_statistics True (3400000001 / 2) (init 0))
       = Some (3400000001 / 2)" by blast
  have b': "s_total (counters (update_statistics True (3400000001 / 2) (init 0))) = 1"
    using b by (simp only: c) simp
  have d': "s_ng (counters (update_statistics True (3400000001 / 2) (init 0))) = 1"
    using d by (simp only: c) simp
  have e': "s_pass (counters (update_statistics True (3400000001 / 2) (init 0))) = 0"
    using e by (simp only: c) simp
  show ?thesis using h1 h2 h3 h4 h5 h6 h7 a b' d' e' l by blast
qed

section \<open>Exceptions of the detection model\<close>

lemma loop_body_raises:
  "model_out t = Raises msg \<Longrightarrow>
     loop_body names t frm s =
       s\<lparr>printed := printed s @ [''Detection error: '' @ msg], current_frame := Some frm\<rparr>"
  by (simp add: loop_body_def)

text \<open>
  C8. In an iteration of the loop (the object is running and holds a camera, and a frame
  has been read) in which the call of the detection model raises an \<open>Exception\<close>, the
  handler inside the loop takes it: the message is printed, the raw frame, with nothing
  drawn on it, becomes the current frame, nothing else changes, and \<open>generate_frames\<close>
  goes on with the following iterations. After such an iteration the loop has not exited,
  and the exception does not leave \<open>generate_frames\<close>.
\<close>

theorem model_exception_is_caught:
  assumes "is_running s" and "camera s \<noteq> None"
      and "cam_read t = Some px" and "model_out t = Raises msg"
  shows "generate_frames names (t # ts) s =
           generate_frames names ts
             (s\<lparr>printed := printed s @ [''Detection error: '' @ msg],
                current_frame := Some \<lparr>pixels = px, overlays = []\<rparr>\<rparr>)
         \<and> generate_frames names [t] s =
             (Pending, s\<lparr>printed := printed s @ [''Detection error: '' @ msg],
                          current_frame := Some \<lparr>pixels = px, overlays = []\<rparr>\<rparr>)"
  using assms by (simp add: loop_body_raises)

theorem model_exception_is_caught_witness:
  "is_running (snd (start_detection (Opened 0) (init 0)))
   \<and> camera (snd (start_detection (Opened 0) (init 0))) \<noteq> None
   \<and> cam_read raising_tick = Some 7 \<and> model_out raising_tick = Raises ''boom''
   \<and> fst (generate_frames [] [raising_tick] (snd (start_detection (Opened 0) (init 0)))) = Pending
   \<and> current_frame (snd (generate_frames [] [raising_tick] (snd (start_detection (Opened 0) (init 0)))))
       = Some \<lparr>pixels = 7, overlays = []\<rparr>"
proof -
  let ?s = "snd (start_detection (Opened 0) (init 0))"
  have h1: "is_running ?s" by (simp add: start_detection_def)
  have h2: "camera ?s \<noteq> None" by (simp add: start_detection_def)
  have h3: "cam_read raising_tick = Some 7" by (simp add: raising_tick_def)
  have h4: "model_out raising_tick = Raises ''boom''" by (simp add: raising_tick_def)
  from model_exception_is_caught [OF h1 h2 h3 h4, of "[]" "[]"]
  have "generate_frames [] [raising_tick] ?s =
          (Pending, ?s\<lparr>printed := printed ?s @ [''Detection error: '' @ ''boom''],
                       current_frame := Some \<lparr>pixels = 7, overlays = []\<rparr>\<rparr>)" by blast
  then show ?thesis using h1 h2 h3 h4 by simp
qed

section \<open>Starting while running\<close>

text \<open>
  C1, as the specification states it, fails: \<open>start_detection\<close> does not look at
  \<open>is_running\<close>. Called on a running object it does not return that state unchanged,
  and it starts a second thread running \<open>generate_frames\<close>.
\<close>

theorem start_while_running_counterexample:
  "is_running (snd (start_detection (Opened 0) (init 0)))
   \<and> snd (start_detection (Opened 1) (snd (start_detection (Opened 0) (init 0))))
       \<noteq> snd (start_detection (Opened 0) (init 0))
   \<and> threads_started (snd (start_detection (Opened 0) (init 0))) = 1
   \<and> threads_started
        (snd (start_detection (Opened 1) (snd (start_detection (Opened 0) (init 0))))) = 2
   \<and> fst (generate_frames []
        [] (snd (start_detection (Opened 1) (snd (start_detection (Opened 0) (init 0))))))
       = Pending"
proof -
  have "threads_started
        (snd (start_detection (Opened 1) (snd (start_detection (Opened 0) (init 0)))))
      \<noteq> threads_started (snd (start_detection (Opened 0) (init 0)))"
    by (simp add: start_detection_def init_def)
  then have "snd (start_detection (Opened 1) (snd (start_detection (Opened 0) (init 0))))
       \<noteq> snd (start_detection (Opened 0) (init 0))"
    by auto
  then show ?thesis by (simp add: start_detection_def init_def)
qed

text \<open>
  C1, amended. On an object that is already running, \<open>start_detection\<close> does what it
  does on a stopped one. When the camera opens it returns \<open>True\<close>, the object stays
  running and its counters, frame and clocks stay as they are, but the camera handle is
  replaced and one more \<open>generate_frames\<close> thread is started. When opening the camera
  raises it returns \<open>False\<close> and starts no thread.
\<close>

theorem start_while_running:
  assumes "is_running s"
  shows "start_detection (Opened h) s
           = (True, s\<lparr>camera := Some h, threads_started := threads_started s + 1\<rparr>)
         \<and> start_detection (CaptureRaised msg) s
           = (False, s\<lparr>printed := printed s @ [''Error initializing camera: '' @ msg]\<rparr>)
         \<and> start_detection (SetRaised h msg) s
           = (False, s\<lparr>camera := Some h,
                        printed := printed s @ [''Error initializing camera: '' @ msg]\<rparr>)"
  using assms by (simp add: start_detection_def)

theorem start_while_running_witness:
  "is_running (snd (start_detection (Opened 0) (init 0)))
   \<and> fst (start_detection (Opened 1) (snd (start_detection (Opened 0) (init 0))))
   \<and> is_running (snd (start_detection (Opened 1) (snd (start_detection (Opened 0) (init 0)))))
   \<and> camera (snd (start_detection (Opened 1) (snd (start_detection (Opened 0) (init 0))))) = Some 1"
proof -
  let ?s = "snd (start_detection (Opened 0) (init 0))"
  have h: "is_running ?s" by (simp add: start_detection_def)
  from start_while_running [OF h, of 1]
  have "start_detection (Opened 1) ?s
          = (True, ?s\<lparr>camera := Some 1, threads_started := threads_started ?s + 1\<rparr>)" by blast
  then show ?thesis using h by simp
qed

section \<open>The defect label\<close>

lemma of_char_lower_char:
  "(of_char (lower_char c) :: nat) =
     (if 65 \<le> (of_char c :: nat) \<and> (of_char c :: nat) \<le> 90 then of_char c + 32 else of_char c)"
  by (simp add: lower_char_def Let_def)

lemma char_eq_iff_nat: "c = d \<longleftrightarrow> (of_char c :: nat) = of_char d"
  by simp

lemma lower_char_s: "lower_char c = CHR ''s'' \<longleftrightarrow> c = CHR ''s'' \<or> c = CHR ''S''"
  unfolding char_eq_iff_nat [of _ "CHR ''s''"] char_eq_iff_nat [of _ "CHR ''S''"]
    of_char_lower_char
  by auto

lemma lower_char_g: "lower_char c = CHR ''g'' \<longleftrightarrow> c = CHR ''g'' \<or> c = CHR ''G''"
  unfolding char_eq_iff_nat [of _ "CHR ''g''"] char_eq_iff_nat [of _ "CHR ''G''"]
    of_char_lower_char
  by auto

lemma lower_eq_sg: "lower s = ''sg'' \<longleftrightarrow> s \<in> {''sg'', ''sG'', ''Sg'', ''SG''}"
proof (cases s)
  case Nil
  then show ?thesis by (simp add: lower_def)
next
  case (Cons a as)
  note s1 = this
  show ?thesis
  proof (cases as)
    case Nil
    with s1 show ?thesis by (simp add: lower_def)
  next
    case (Cons b bs)
    with s1 show ?thesis
      by (cases bs) (auto simp add: lower_def lower_char_s lower_char_g)
  qed
qed

lemma process_boxes_step_name:
  "\<exists>frm'. process_boxes names (b # bs) (sg, dets, frm) =
      process_boxes names bs
        (sg \<or> lower (class_name_of names (cls b)) = ''sg'',
         dets @ [\<lparr>det_class = class_name_of names (cls b), det_confidence = conf b,
                   det_bbox = xyxy b\<rparr>],
         frm')"
proof -
  obtain x1 y1 x2 y2 where x: "xyxy b = (x1, y1, x2, y2)"
    by (cases "xyxy b") auto
  define cn where "cn = class_name_of names (cls b)"
  have cn: "cn = (if cls b < length names then names ! cls b else ''Class_'' @ str_nat (cls b))"
    by (simp add: cn_def class_name_of_def)
  show ?thesis
  proof (cases "lower cn = ''sg''")
    case True
    have "process_boxes names (b # bs) (sg, dets, frm) =
      process_boxes names bs
        (sg \<or> lower cn = ''sg'',
         dets @ [\<lparr>det_class = cn, det_confidence = conf b, det_bbox = xyxy b\<rparr>],
         frm\<lparr>overlays := overlays frm @
            [BoxLabel (trunc x1, trunc y1, trunc x2, trunc y2) (0, 0, 255)
               ''SG - DEFECT'' (conf b)]\<rparr>)"
      using True x unfolding cn by (simp add: Let_def)
    then show ?thesis unfolding cn_def by blast
  next
    case False
    have "process_boxes names (b # bs) (sg, dets, frm) =
      process_boxes names bs
        (sg \<or> lower cn = ''sg'',
         dets @ [\<lparr>det_class = cn, det_confidence = conf b, det_bbox = xyxy b\<rparr>],
         frm\<lparr>overlays := overlays frm @
            [BoxLabel (trunc x1, trunc y1, trunc x2, trunc y2) (0, 255, 255)
               (upper cn) (conf b)]\<rparr>)"
      using False x unfolding cn by (simp add: Let_def)
    then show ?thesis unfolding cn_def by blast
  qed
qed

lemma process_boxes_result:
  "fst (process_boxes names bs (sg, dets, frm))
     = (sg \<or> (\<exists>b\<in>set bs. lower (class_name_of names (cls b)) = ''sg''))
   \<and> fst (snd (process_boxes names bs (sg, dets, frm)))
     = dets @ map (\<lambda>b. \<lparr>det_class = class_name_of names (cls b), det_confidence = conf b,
                           det_bbox = xyxy b\<rparr>) bs"
proof (induction bs arbitrary: sg dets frm)
  case Nil
  show ?case by simp
next
  case (Cons b bs)
  from process_boxes_step_name [of names b bs sg dets frm]
  obtain frm' where st: "process_boxes names (b # bs) (sg, dets, frm) =
      process_boxes names bs
        (sg \<or> lower (class_name_of names (cls b)) = ''sg'',
         dets @ [\<lparr>det_class = class_name_of names (cls b), det_confidence = conf b,
                   det_bbox = xyxy b\<rparr>],
         frm')" by blast
  show ?case unfolding st using Cons.IH by auto
qed

lemma process_detections_boxes:
  assumes "boxes r = Some bs"
  shows "fst (snd (process_detections names (r # rs) frm))
           = map (\<lambda>b. \<lparr>det_class = class_name_of names (cls b), det_confidence = conf b,
                          det_bbox = xyxy b\<rparr>) bs"
    and "fst (process_detections names (r # rs) frm)
           \<longleftrightarrow> (\<exists>b\<in>set bs. class_name_of names (cls b) \<in> {''sg'', ''sG'', ''Sg'', ''SG''})"
  using assms process_boxes_result [of names bs False "[]" frm]
  by (simp_all add: process_detections_def lower_eq_sg)

lemma process_detections_has_sg:
  "fst (process_detections names results frm) \<longleftrightarrow>
     (\<exists>d\<in>set (fst (snd (process_detections names results frm))).
        det_class d \<in> {''sg'', ''sG'', ''Sg'', ''SG''})"
proof (cases results)
  case Nil
  then show ?thesis by (simp add: process_detections_def)
next
  case (Cons r rs)
  show ?thesis
  proof (cases "boxes r")
    case None
    with Cons show ?thesis by (simp add: process_detections_def)
  next
    case (Some bs)
    from process_detections_boxes [OF Some, of names rs frm] Cons
    show ?thesis by simp
  qed
qed

lemma process_detections_no_boxes:
  "boxes r = None \<Longrightarrow> process_detections names (r # rs) frm = (False, [], frm)"
  by (simp add: process_detections_def)

lemma lower_sg: "lower ''sg'' = ''sg''"
  by (simp add: lower_eq_sg)

lemma process_detections_sg_example:
  "fst (process_detections [''sg''] sg_example frm) = True"
  "fst (snd (process_detections [''sg''] sg_example frm))
     = [\<lparr>det_class = ''sg'', det_confidence = 9 / 10, det_bbox = (0, 0, 10, 10)\<rparr>]"
  by (simp_all add: process_detections_def sg_example_def Let_def lower_sg)

lemma process_detections_empty:
  "process_detections names [\<lparr>boxes = Some []\<rparr>] frm = (False, [], frm)"
  "process_detections names [] frm = (False, [], frm)"
  by (simp_all add: process_detections_def)

text \<open>
  C5. \<open>process_detections\<close> returns one detection for each box of the first result, in
  order, labelled with the name of the box's class, and it reports a defect exactly when
  the label of one of these boxes is \<open>sg\<close> in any mix of upper and lower case; no other
  label counts, and without a result or without boxes there is no detection and no
  defect. So the flag is true exactly when one of the returned detections is labelled
  so. For the single detection labelled \<open>sg\<close> with confidence 0.9 the flag is true, and
  an update that counts with it increments ng; for an empty list of detections the flag
  is false, and an update that counts with it increments pass.
\<close>

theorem defect_present_iff_sg_label:
  "(fst (process_detections names results frm) \<longleftrightarrow>
      (\<exists>d\<in>set (fst (snd (process_detections names results frm))).
         det_class d \<in> {''sg'', ''sG'', ''Sg'', ''SG''}))
   \<and> (boxes r = Some bs \<longrightarrow>
        fst (snd (process_detections names (r # rs) frm))
          = map (\<lambda>b. \<lparr>det_class = class_name_of names (cls b), det_confidence = conf b,
                         det_bbox = xyxy b\<rparr>) bs
        \<and> (fst (process_detections names (r # rs) frm) \<longleftrightarrow>
             (\<exists>b\<in>set bs. class_name_of names (cls b) \<in> {''sg'', ''sG'', ''Sg'', ''SG''})))
   \<and> (boxes r = None \<longrightarrow> process_detections names (r # rs) frm = (False, [], frm))
   \<and> process_detections names [] frm = (False, [], frm)
   \<and> fst (snd (process_detections [''sg''] sg_example frm))
       = [\<lparr>det_class = ''sg'', det_confidence = 9 / 10, det_bbox = (0, 0, 10, 10)\<rparr>]
   \<and> fst (process_detections [''sg''] sg_example frm)
   \<and> (commits now s \<longrightarrow>
        s_ng (counters (update_statistics (fst (process_detections [''sg''] sg_example frm)) now s))
          = s_ng (counters s) + 1)
   \<and> fst (snd (process_detections names [\<lparr>boxes = Some []\<rparr>] frm)) = []
   \<and> \<not> fst (process_detections names [\<lparr>boxes = Some []\<rparr>] frm)
   \<and> (commits now s \<longrightarrow>
        s_pass (counters (update_statistics
                  (fst (process_detections names [\<lparr>boxes = Some []\<rparr>] frm)) now s))
          = s_pass (counters s) + 1)"
  using process_detections_has_sg [of names results frm]
    process_detections_boxes [of r bs names rs frm]
    process_detections_no_boxes [of r names rs frm]
  by (simp add: lower_eq_sg process_detections_sg_example process_detections_empty
      counters_update_statistics count_event_fields)

theorem defect_present_iff_sg_label_witness:
  "commits 10 (init 0)
   \<and> boxes two_boxes = Some [\<lparr>xyxy = (1, 2, 30, 40), conf = 3 / 4, cls = 0\<rparr>,
                                   \<lparr>xyxy = (5, 6, 70, 80), conf = 4 / 5, cls = 1\<rparr>]
   \<and> map det_class (fst (snd (process_detections [''ok'', ''SG''] [two_boxes] blank_frame)))
       = [''ok'', ''SG'']
   \<and> fst (process_detections [''ok'', ''SG''] [two_boxes] blank_frame)
   \<and> \<not> fst (process_detections [''ok'', ''fine''] [two_boxes] blank_frame)
   \<and> boxes no_boxes = None
   \<and> process_detections [''ok'', ''SG''] [no_boxes, two_boxes] blank_frame = (False, [], blank_frame)
   \<and> s_ng (counters (update_statistics
               (fst (process_detections [''sg''] sg_example blank_frame)) 10 (init 0))) = 1
   \<and> s_pass (counters (update_statistics
               (fst (process_detections [''ok'', ''SG''] [\<lparr>boxes = Some []\<rparr>] blank_frame))
               10 (init 0))) = 1"
proof -
  let ?bs = "[\<lparr>xyxy = (1, 2, 30, 40), conf = 3 / 4, cls = 0\<rparr>,
              \<lparr>xyxy = (5, 6, 70, 80), conf = 4 / 5, cls = (1::nat)\<rparr>]"
  have h1: "commits 10 (init 0)" by (rule commits_init_10)
  have h2: "boxes two_boxes = Some ?bs" by (simp add: two_boxes_def)
  have h3: "boxes no_boxes = None" by (simp add: no_boxes_def)
  have c: "counters (init 0) = \<lparr>s_total = 0, s_pass = 0, s_ng = 0\<rparr>"
    by (simp add: counters_def init_def)
  note w = defect_present_iff_sg_label
    [of "[''ok'', ''SG'']" "[]" blank_frame two_boxes ?bs "[]" 10 "init 0"]
  note w' = defect_present_iff_sg_label
    [of "[''ok'', ''fine'']" "[]" blank_frame two_boxes ?bs "[]" 10 "init 0"]
  note w'' = defect_present_iff_sg_label
    [of "[''ok'', ''SG'']" "[]" blank_frame no_boxes ?bs "[two_boxes]" 10 "init 0"]
  from w h2 have m0: "fst (snd (process_detections [''ok'', ''SG''] [two_boxes] blank_frame))
      = map (\<lambda>b. \<lparr>det_class = class_name_of [''ok'', ''SG''] (cls b), det_confidence = conf b,
                         det_bbox = xyxy b\<rparr>) ?bs" by blast
  have m: "map det_class (fst (snd (process_detections [''ok'', ''SG''] [two_boxes] blank_frame)))
       = [''ok'', ''SG'']"
    unfolding m0 by (simp add: class_name_of_def)
  from w h2 have a0: "fst (process_detections [''ok'', ''SG''] [two_boxes] blank_frame) \<longleftrightarrow>
             (\<exists>b\<in>set ?bs. class_name_of [''ok'', ''SG''] (cls b) \<in> {''sg'', ''sG'', ''Sg'', ''SG''})"
    by blast
  have a: "fst (process_detections [''ok'', ''SG''] [two_boxes] blank_frame)"
    unfolding a0 by (simp add: class_name_of_def)
  from w' h2 have n0: "fst (process_detections [''ok'', ''fine''] [two_boxes] blank_frame) \<longleftrightarrow>
             (\<exists>b\<in>set ?bs. class_name_of [''ok'', ''fine''] (cls b) \<in> {''sg'', ''sG'', ''Sg'', ''SG''})"
    by blast
  have n: "\<not> fst (process_detections [''ok'', ''fine''] [two_boxes] blank_frame)"
    unfolding n0 by (simp add: class_name_of_def)
  from w'' h3 have z: "process_detections [''ok'', ''SG''] [no_boxes, two_boxes] blank_frame
      = (False, [], blank_frame)" by blast
  from w h1 have b: "s_ng (counters (update_statistics
               (fst (process_detections [''sg''] sg_example blank_frame)) 10 (init 0)))
          = s_ng (counters (init 0)) + 1" by blast
  from w h1 have d: "s_pass (counters (update_statistics
               (fst (process_detections [''ok'', ''SG''] [\<lparr>boxes = Some []\<rparr>] blank_frame))
               10 (init 0)))
          = s_pass (counters (init 0)) + 1" by blast
  have b': "s_ng (counters (update_statistics
               (fst (process_detections [''sg''] sg_example blank_frame)) 10 (init 0))) = 1"
    using b by (simp only: c) simp
  have d': "s_pass (counters (update_statistics
               (fst (process_detections [''ok'', ''SG''] [\<lparr>boxes = Some []\<rparr>] blank_frame))
               10 (init 0))) = 1"
    using d by (simp only: c) simp
  show ?thesis using h1 h2 h3 m a n z b' d' by blast
qed

section \<open>The rate of defects in the pushed event\<close>

lemma emitted_update_statistics: "emitted (update_statistics sg now s) = emitted s"
  by (simp add: update_statistics_def Let_def split: option.splits)

lemma emitted_calculate_fps: "emitted (calculate_fps now s) = emitted s"
  by (simp add: calculate_fps_def Let_def)

lemma int_truediv_no_zero_division: "b \<noteq> 0 \<Longrightarrow> int_truediv a b \<noteq> Inl ZeroDivisionError"
  by (simp add: int_truediv_def split: pyfloat.splits)

lemma ng_rate_entry_no_zero_division: "ng_rate_entry st \<noteq> Inl ZeroDivisionError"
proof -
  have "max 1 (s_total st) \<noteq> 0" by simp
  from int_truediv_no_zero_division [OF this, of "s_ng st"]
  show ?thesis by (auto simp add: ng_rate_entry_def split: sum.splits)
qed

lemma py_round1_decimal:
  assumes "0 \<le> w" and "w \<le> 100"
  shows "\<exists>u k. py_round1 (Fin w) = Fin u \<and> 0 \<le> u \<and> u \<le> 100
           \<and> 0 \<le> k \<and> k \<le> 1000 \<and> fl (of_int k / 10) = Fin u"
proof -
  let ?r = "round_half_even (w * 10)"
  have r0: "0 \<le> ?r" using assms(1) by (simp add: round_half_even_nonneg)
  have "w * 10 \<le> rat_of_int 1000" using assms(2) by simp
  then have r1: "?r \<le> 1000" by (rule round_half_even_le)
  from py_round1_bounded [OF assms] obtain u where
    u: "py_round1 (Fin w) = Fin u" "0 \<le> u" "u \<le> 100" by blast
  have "py_round1 (Fin w) = fl (of_int ?r / 10)"
  proof (cases "w = 0")
    case True
    then show ?thesis by (simp add: round_half_even_def fl_def)
  next
    case False
    then show ?thesis using assms(1) by (simp add: Let_def fl_def)
  qed
  with u r0 r1 show ?thesis by metis
qed

lemma ng_rate_entry_decimal:
  assumes "0 \<le> s_ng st" and "s_ng st \<le> s_total st"
  shows "\<exists>u k. ng_rate_entry st = Inr (Fin u) \<and> 0 \<le> u \<and> u \<le> 100
           \<and> 0 \<le> k \<and> k \<le> 1000 \<and> fl (of_int k / 10) = Fin u"
proof (cases "s_ng st = 0")
  case True
  have "ng_rate_entry st = Inr (Fin 0)" using True by (simp add: ng_rate_entry_def int_truediv_def)
  moreover have "fl (of_int 0 / 10) = Fin 0" by (simp add: fl_def)
  ultimately show ?thesis by (intro exI [of _ 0]) simp
next
  case False
  let ?b = "max 1 (s_total st)"
  let ?q = "rat_of_int (s_ng st) / rat_of_int ?b"
  have bpos: "0 < rat_of_int ?b" by simp
  have q0: "0 \<le> ?q" using assms(1) by simp
  have "rat_of_int (s_ng st) \<le> rat_of_int ?b" using assms(2) by simp
  then have q1: "?q \<le> rat_of_int 1" using bpos by (simp add: divide_le_eq_1)
  from fl_bounded [OF q0 q1] obtain v where v: "fl ?q = Fin v" "0 \<le> v" "v \<le> 1" by auto
  then have d: "int_truediv (s_ng st) ?b = Inr (Fin v)"
    using False by (simp add: int_truediv_def)
  have "\<exists>w. float_mul_pos (Fin v) 100 = Fin w \<and> 0 \<le> w \<and> w \<le> 100"
  proof (cases "v = 0")
    case True
    then show ?thesis by simp
  next
    case v0: False
    have a: "0 \<le> v * 100" using v(2) by simp
    have b: "v * 100 \<le> rat_of_int 100" using v(3) by simp
    from fl_bounded [OF a b] v0 show ?thesis by simp
  qed
  then obtain w where w: "float_mul_pos (Fin v) 100 = Fin w" "0 \<le> w" "w \<le> 100" by blast
  from py_round1_decimal [OF w(2) w(3)] d w(1) show ?thesis
    by (simp add: ng_rate_entry_def)
qed

lemma ng_rate_entry_third:
  "ng_rate_entry \<lparr>s_total = 3, s_pass = 2, s_ng = 1\<rparr> = Inr (Fin (2343279181116211 / 70368744177664))"
proof -
  have d: "int_truediv 1 3 = Inr (Fin (6004799503160661 / 18014398509481984))"
    by (simp add: int_truediv_def fl_third)
  have p: "(6004799503160661 / 18014398509481984 :: rat) * 100 = 150119987579016525 / 4503599627370496" by simp
  have m: "float_mul_pos (Fin (6004799503160661 / 18014398509481984)) 100 = Fin (2345624805922133 / 70368744177664)"
    unfolding float_mul_pos.simps p by (simp add: fl_third_times_100)
  have "round_half_even (2345624805922133 / 70368744177664 * 10) = 333"
    by (rule round_half_even_near) (simp_all)
  then have r: "py_round1 (Fin (2345624805922133 / 70368744177664)) = Fin (2343279181116211 / 70368744177664)"
    by (simp add: Let_def fl_33_3)
  have "ng_rate_entry \<lparr>s_total = 3, s_pass = 2, s_ng = 1\<rparr> =
      (case int_truediv 1 3 of Inl e \<Rightarrow> Inl e
       | Inr x \<Rightarrow> Inr (py_round1 (float_mul_pos x 100)))"
    by (simp add: ng_rate_entry_def)
  also have "\<dots> = Inr (py_round1 (float_mul_pos (Fin (6004799503160661 / 18014398509481984)) 100))"
    by (simp only: d sum.case)
  also have "\<dots> = Inr (Fin (2343279181116211 / 70368744177664))"
    by (simp only: m r)
  finally show ?thesis .
qed

lemma ng_rate_entry_two_sevenths:
  "ng_rate_entry \<lparr>s_total = 7, s_pass = 5, s_ng = 2\<rparr> = Inr (Fin (4025092166962381 / 140737488355328))"
proof -
  have d: "int_truediv 2 7 = Inr (Fin (2573485501354569 / 9007199254740992))"
    by (simp add: int_truediv_def fl_two_sevenths)
  have p: "(2573485501354569 / 9007199254740992 :: rat) * 100 = 64337137533864225 / 2251799813685248" by simp
  have m: "float_mul_pos (Fin (2573485501354569 / 9007199254740992)) 100 = Fin (2010535547933257 / 70368744177664)"
    unfolding float_mul_pos.simps p by (simp add: fl_two_sevenths_times_100)
  have "round_half_even (2010535547933257 / 70368744177664 * 10) = 286"
    by (rule round_half_even_near) (simp_all)
  then have r: "py_round1 (Fin (2010535547933257 / 70368744177664)) = Fin (4025092166962381 / 140737488355328)"
    by (simp add: Let_def fl_28_6)
  have "ng_rate_entry \<lparr>s_total = 7, s_pass = 5, s_ng = 2\<rparr> =
      (case int_truediv 2 7 of Inl e \<Rightarrow> Inl e
       | Inr x \<Rightarrow> Inr (py_round1 (float_mul_pos x 100)))"
    by (simp add: ng_rate_entry_def)
  also have "\<dots> = Inr (py_round1 (float_mul_pos (Fin (2573485501354569 / 9007199254740992)) 100))"
    by (simp only: d sum.case)
  also have "\<dots> = Inr (Fin (4025092166962381 / 140737488355328))"
    by (simp only: m r)
  finally show ?thesis .
qed

lemma ng_rate_entry_sixteenth:
  "ng_rate_entry \<lparr>s_total = 16, s_pass = 15, s_ng = 1\<rparr> = Inr (Fin (6980579422424269 / 1125899906842624))"
proof -
  have d: "int_truediv 1 16 = Inr (Fin (1 / 16))"
    by (simp add: int_truediv_def fl_sixteenth)
  have p: "(1 / 16 :: rat) * 100 = 25 / 4" by simp
  have m: "float_mul_pos (Fin (1 / 16)) 100 = Fin (25 / 4)"
    unfolding float_mul_pos.simps p by (simp add: fl_25_4)
  have "round_half_even (25 / 4 * 10) = 62"
    by (simp add: round_half_even_tie [of _ 62])
  then have r: "py_round1 (Fin (25 / 4)) = Fin (6980579422424269 / 1125899906842624)"
    by (simp add: Let_def fl_6_2)
  have "ng_rate_entry \<lparr>s_total = 16, s_pass = 15, s_ng = 1\<rparr> =
      (case int_truediv 1 16 of Inl e \<Rightarrow> Inl e
       | Inr x \<Rightarrow> Inr (py_round1 (float_mul_pos x 100)))"
    by (simp add: ng_rate_entry_def)
  also have "\<dots> = Inr (py_round1 (float_mul_pos (Fin (1 / 16)) 100))"
    by (simp only: d sum.case)
  also have "\<dots> = Inr (Fin (6980579422424269 / 1125899906842624))"
    by (simp only: m r)
  finally show ?thesis .
qed

lemma ng_rate_entry_example: "ng_rate_entry \<lparr>s_total = 4, s_pass = 3, s_ng = 1\<rparr> = Inr (Fin 25)"
proof -
  have d: "int_truediv 1 4 = Inr (Fin (1 / 4))"
    by (simp add: int_truediv_def fl_quarter)
  have m: "float_mul_pos (Fin (1 / 4)) 100 = Fin 25"
    by (simp add: fl_25)
  have "round_half_even (rat_of_int 250) = 250" by (rule round_half_even_of_int)
  then have "round_half_even 250 = 250" by simp
  then have r: "py_round1 (Fin 25) = Fin 25"
    by (simp add: fl_25 Let_def)
  have "ng_rate_entry \<lparr>s_total = 4, s_pass = 3, s_ng = 1\<rparr> =
      (case int_truediv 1 4 of Inl e \<Rightarrow> Inl e
       | Inr x \<Rightarrow> Inr (py_round1 (float_mul_pos x 100)))"
    by (simp add: ng_rate_entry_def)
  also have "\<dots> = Inr (py_round1 (float_mul_pos (Fin (1 / 4)) 100))"
    by (simp only: d sum.case)
  also have "\<dots> = Inr (Fin 25)"
    by (simp only: m r)
  finally show ?thesis .
qed

lemma loop_body_emitted:
  assumes "model_out t = Results rs" and "encoded t = Some bytes"
  shows "emitted (loop_body names t frm s) =
           emitted s @
             (case ng_rate_entry (counters (loop_body names t frm s)) of
                Inl e \<Rightarrow> []
              | Inr r \<Rightarrow>
                  [DetectionResult
                     \<lparr>status = (if fst (process_detections names rs frm) then ''NG'' else ''PASS''),
                      pass_count = s_pass (counters (loop_body names t frm s)),
                      ng_count = s_ng (counters (loop_body names t frm s)),
                      total_count = s_total (counters (loop_body names t frm s)),
                      ng_rate = r\<rparr>,
                   VideoFrame bytes])"
proof -
  obtain sg dets pf where pd: "process_detections names rs frm = (sg, dets, pf)"
    by (cases "process_detections names rs frm") auto
  define s3 where "s3 = calculate_fps (fps_clock t) (update_statistics sg (stat_clock t)
      (s\<lparr>detection_results := (detection_results s)\<lparr>has_sg := sg, detections := dets\<rparr>\<rparr>))"
  define pf' where "pf' = pf\<lparr>overlays := overlays pf @
      [Banner (fps (detection_results s3)) sg (if sg then (0, 0, 255) else (0, 255, 0))]\<rparr>"
  define s4 where "s4 = s3\<lparr>current_frame := Some pf'\<rparr>"
  have e4: "emitted s4 = emitted s"
    by (simp add: s4_def s3_def emitted_calculate_fps emitted_update_statistics)
  have lb: "loop_body names t frm s =
      (case ng_rate_entry (counters s4) of
         Inl e \<Rightarrow> s4\<lparr>printed := printed s4 @ [''Detection error: '' @ error_text e],
                     current_frame := Some pf'\<rparr>
       | Inr r \<Rightarrow> s4\<lparr>emitted := emitted s4 @
            [DetectionResult
               \<lparr>status = (if sg then ''NG'' else ''PASS''),
                pass_count = s_pass (counters s4), ng_count = s_ng (counters s4),
                total_count = s_total (counters s4), ng_rate = r\<rparr>,
             VideoFrame bytes]\<rparr>)"
  proof (cases "ng_rate_entry (counters s4)")
    case (Inl e)
    then show ?thesis using assms pd
      by (simp add: loop_body_def Let_def counters_def s4_def pf'_def s3_def)
  next
    case (Inr r)
    then show ?thesis using assms pd
      by (simp add: loop_body_def Let_def counters_def s4_def pf'_def s3_def)
  qed
  have c: "counters (loop_body names t frm s) = counters s4"
    unfolding lb by (cases "ng_rate_entry (counters s4)") (simp_all add: counters_def)
  show ?thesis
    unfolding c unfolding lb using pd e4
    by (cases "ng_rate_entry (counters s4)") simp_all
qed

text \<open>
  C6. When an iteration pushes its \<open>detection_result\<close> event (the model has returned and
  the frame has been encoded), the event carries the counters as they are after the
  statistics update of that iteration, and its \<open>ng_rate\<close> is
  \<open>round(ng / max(1, total) * 100, 1)\<close> on these counters. For pass 3, ng 1, total 4 this
  is 25.0; for ng 1 of total 3 it is the float 33.3, for ng 1 of total 16 it is 6.2 (the
  tie 6.25 goes to the even digit) and for ng 2 of total 7 it is 28.6. The divisor
  \<open>max(1, total)\<close> is never zero, so the division never raises ZeroDivisionError, and for
  total 0, ng 0 the rate is 0.0. Whenever 0 \<le> ng \<le> total the rate is the float nearest
  to a decimal \<open>k / 10\<close> with one fractional digit, between 0 and 100.
\<close>

theorem ng_rate_of_pushed_event:
  "(model_out t = Results rs \<and> encoded t = Some bytes \<longrightarrow>
      emitted (loop_body names t frm s) =
        emitted s @
          (case ng_rate_entry (counters (loop_body names t frm s)) of
             Inl e \<Rightarrow> []
           | Inr r \<Rightarrow>
               [DetectionResult
                  \<lparr>status = (if fst (process_detections names rs frm) then ''NG'' else ''PASS''),
                   pass_count = s_pass (counters (loop_body names t frm s)),
                   ng_count = s_ng (counters (loop_body names t frm s)),
                   total_count = s_total (counters (loop_body names t frm s)),
                   ng_rate = r\<rparr>,
                VideoFrame bytes]))
   \<and> ng_rate_entry st =
       (case int_truediv (s_ng st) (max 1 (s_total st)) of
          Inl e \<Rightarrow> Inl e
        | Inr x \<Rightarrow> Inr (py_round1 (float_mul_pos x 100)))
   \<and> ng_rate_entry \<lparr>s_total = 4, s_pass = 3, s_ng = 1\<rparr> = Inr (Fin 25)
   \<and> ng_rate_entry \<lparr>s_total = 0, s_pass = 0, s_ng = 0\<rparr> = Inr (Fin 0)
   \<and> ng_rate_entry \<lparr>s_total = 3, s_pass = 2, s_ng = 1\<rparr> = Inr (fl (333 / 10))
   \<and> fl (333 / 10) = Fin (2343279181116211 / 70368744177664)
   \<and> ng_rate_entry \<lparr>s_total = 16, s_pass = 15, s_ng = 1\<rparr> = Inr (fl (62 / 10))
   \<and> fl (62 / 10) = Fin (6980579422424269 / 1125899906842624)
   \<and> ng_rate_entry \<lparr>s_total = 7, s_pass = 5, s_ng = 2\<rparr> = Inr (fl (286 / 10))
   \<and> fl (286 / 10) = Fin (4025092166962381 / 140737488355328)
   \<and> ng_rate_entry st \<noteq> Inl ZeroDivisionError
   \<and> (0 \<le> s_ng st \<and> s_ng st \<le> s_total st \<longrightarrow>
        (\<exists>u k. ng_rate_entry st = Inr (Fin u) \<and> 0 \<le> u \<and> u \<le> 100
           \<and> 0 \<le> k \<and> k \<le> 1000 \<and> fl (of_int k / 10) = Fin u))"
proof -
  have z: "ng_rate_entry \<lparr>s_total = 0, s_pass = 0, s_ng = 0\<rparr> = Inr (Fin 0)"
    by (simp add: ng_rate_entry_def int_truediv_def)
  have d: "ng_rate_entry st =
       (case int_truediv (s_ng st) (max 1 (s_total st)) of
          Inl e \<Rightarrow> Inl e
        | Inr x \<Rightarrow> Inr (py_round1 (float_mul_pos x 100)))"
    by (simp add: ng_rate_entry_def)
  have f1: "fl (333 / 10) = Fin (2343279181116211 / 70368744177664)" by (rule fl_33_3)
  have f2: "fl (62 / 10) = Fin (6980579422424269 / 1125899906842624)" using fl_6_2 by simp
  have f3: "fl (286 / 10) = Fin (4025092166962381 / 140737488355328)" using fl_28_6 by simp
  have e1: "ng_rate_entry \<lparr>s_total = 3, s_pass = 2, s_ng = 1\<rparr> = Inr (fl (333 / 10))"
    unfolding f1 by (rule ng_rate_entry_third)
  have e2: "ng_rate_entry \<lparr>s_total = 16, s_pass = 15, s_ng = 1\<rparr> = Inr (fl (62 / 10))"
    unfolding f2 by (rule ng_rate_entry_sixteenth)
  have e3: "ng_rate_entry \<lparr>s_total = 7, s_pass = 5, s_ng = 2\<rparr> = Inr (fl (286 / 10))"
    unfolding f3 by (rule ng_rate_entry_two_sevenths)
  show ?thesis
    using loop_body_emitted [of t rs bytes names frm s] ng_rate_entry_example z d
      ng_rate_entry_no_zero_division [of st] ng_rate_entry_decimal [of st] f1 f2 f3 e1 e2 e3
    by blast
qed

theorem ng_rate_of_pushed_event_witness:
  "model_out plain_tick = Results [] \<and> encoded plain_tick = Some ''abc''
   \<and> 0 \<le> s_ng (counters counted_four) \<and> s_ng (counters counted_four) \<le> s_total (counters counted_four)
   \<and> emitted (loop_body [] plain_tick \<lparr>pixels = 7, overlays = []\<rparr> counted_four) =
       [DetectionResult
          \<lparr>status = ''PASS'', pass_count = 3, ng_count = 1, total_count = 4, ng_rate = Fin 25\<rparr>,
        VideoFrame ''abc'']"
proof -
  let ?frm = "\<lparr>pixels = 7, overlays = []\<rparr>"
  have h1: "model_out plain_tick = Results []" by (simp add: plain_tick_def)
  have h2: "encoded plain_tick = Some ''abc''" by (simp add: plain_tick_def)
  have c0: "counters counted_four = \<lparr>s_total = 4, s_pass = 3, s_ng = 1\<rparr>"
    by (simp add: counters_def counted_four_def init_def)
  have k: "\<not> commits (stat_clock plain_tick) counted_four"
    by (simp add: commits_def plain_tick_def counted_four_def float_sub_def fl_1)
  have c: "counters (loop_body [] plain_tick ?frm counted_four) = \<lparr>s_total = 4, s_pass = 3, s_ng = 1\<rparr>"
    using k h1 by (simp add: counters_loop_body c0)
  have e0: "emitted counted_four = []" by (simp add: counted_four_def init_def)
  have p: "\<not> fst (process_detections [] [] ?frm)" by (simp add: process_detections_def)
  note w = ng_rate_of_pushed_event [of plain_tick "[]" "''abc''" "[]" ?frm counted_four "counters counted_four"]
  from w h1 h2 have "emitted (loop_body [] plain_tick ?frm counted_four) =
        emitted counted_four @
          (case ng_rate_entry (counters (loop_body [] plain_tick ?frm counted_four)) of
             Inl e \<Rightarrow> []
           | Inr r \<Rightarrow>
               [DetectionResult
                  \<lparr>status = (if fst (process_detections [] [] ?frm) then ''NG'' else ''PASS''),
                   pass_count = s_pass (counters (loop_body [] plain_tick ?frm counted_four)),
                   ng_count = s_ng (counters (loop_body [] plain_tick ?frm counted_four)),
                   total_count = s_total (counters (loop_body [] plain_tick ?frm counted_four)),
                   ng_rate = r\<rparr>,
                VideoFrame ''abc''])" by blast
  moreover from w have "ng_rate_entry \<lparr>s_total = 4, s_pass = 3, s_ng = 1\<rparr> = Inr (Fin 25)"
    by blast
  ultimately have "emitted (loop_body [] plain_tick ?frm counted_four) =
       [DetectionResult
          \<lparr>status = ''PASS'', pass_count = 3, ng_count = 1, total_count = 4, ng_rate = Fin 25\<rparr>,
        VideoFrame ''abc'']"
    by (simp add: c e0 p)
  then show ?thesis using h1 h2 by (simp add: c0)
qed

end
